theory Spec2Isabelle
  imports Complex_Main
begin

section \<open>The decode engine of libgroove (src/playlist.c)\<close>

text \<open>
  A shallow embedding of \<^verbatim>\<open>src/playlist.c\<close>. One value of the record
  \<open>GroovePlaylist\<close> holds a playlist, its private engine state and the memory it
  points into: playlist items, buffers and frames live in partial heaps (an address that
  is not in the heap has been freed or was never allocated), sinks and files in total
  stores (they are owned by the caller and outlive every call modelled here).
  Every function runs as the C code does when no other thread interleaves: the mutexes
  are not modelled. What several threads do is a sequence of such runs: the worker holds
  \<^verbatim>\<open>decode_head_mutex\<close> through each pass of its loop, and so do the calls that change
  the playlist, so they take turns with the passes.
\<close>

subsection \<open>Pointers, faults and results\<close>

text \<open>A pointer is \<open>None\<close> (NULL) or the address of an object.\<close>

type_synonym ptr = "nat option"

text \<open>
  What C leaves undefined is a result of the model: dereferencing NULL, and dereferencing
  an address that is not allocated. A call that does not return is \<open>Blocked\<close>: it
  waits for another thread, or the library has no further answer for it.
\<close>

datatype fault = NullDeref | Dangling nat

datatype 'a outcome = Fault fault | Blocked | Done 'a

fun and_then :: "'a outcome \<Rightarrow> ('a \<Rightarrow> 'b outcome) \<Rightarrow> 'b outcome" where
  "and_then (Fault e) f = Fault e"
| "and_then Blocked f = Blocked"
| "and_then (Done x) f = f x"

text \<open>Reading an object through a pointer.\<close>

definition deref :: "(nat \<rightharpoonup> 'a) \<Rightarrow> ptr \<Rightarrow> 'a outcome" where
  "deref h p =
     (case p of
        None \<Rightarrow> Fault NullDeref
      | Some a \<Rightarrow> (case h a of None \<Rightarrow> Fault (Dangling a) | Some v \<Rightarrow> Done v))"

subsection \<open>C doubles\<close>

text \<open>
  A \<^verbatim>\<open>double\<close> is a NaN, an infinity or a finite number. Only the comparisons of C
  are defined here (every comparison with a NaN is false); they are exact on doubles, so
  the finite values are taken as reals. Arithmetic on doubles rounds and is left to a
  parameter wherever the code multiplies.
\<close>

datatype double = NaN | NegInf | Fin real | PosInf

fun dless :: "double \<Rightarrow> double \<Rightarrow> bool" where
  "dless (Fin x) (Fin y) = (x < y)"
| "dless (Fin x) PosInf = True"
| "dless NegInf (Fin y) = True"
| "dless NegInf PosInf = True"
| "dless _ _ = False"

definition dgreater :: "double \<Rightarrow> double \<Rightarrow> bool" where
  "dgreater a b = dless b a"

fun deq :: "double \<Rightarrow> double \<Rightarrow> bool" where
  "deq (Fin x) (Fin y) = (x = y)"
| "deq PosInf PosInf = True"
| "deq NegInf NegInf = True"
| "deq _ _ = False"

text \<open>Membership in the closed interval from 0.0 to 1.0.\<close>

definition in_unit_interval :: "double \<Rightarrow> bool" where
  "in_unit_interval v = (\<not> dless v (Fin 0) \<and> \<not> dgreater v (Fin 1) \<and> deq v v)"

subsection \<open>Data\<close>

record GrooveAudioFormat =
  sample_rate :: int
  channel_layout :: nat
  sample_fmt :: int

text \<open>
  The generic queue of \<^verbatim>\<open>queue.h\<close>: the entries in arrival order (each a
  \<^verbatim>\<open>void *\<close>) and the abort state.
\<close>

record GrooveQueue =
  entries :: "ptr list"
  q_abort_request :: bool

text \<open>
  \<^verbatim>\<open>GrooveSink\<close> together with its \<^verbatim>\<open>GrooveSinkPrivate\<close>. The back-reference
  \<open>playlist\<close> is NULL or the one playlist of the model; \<open>flush\<close> and \<open>purge\<close> say
  whether the consumer installed the hook. \<^verbatim>\<open>groove_sink_create\<close> returns no sink
  without a queue, so \<open>audioq\<close> is held by value.
\<close>

record GrooveSink =
  audio_format :: GrooveAudioFormat
  buffer_size :: int
  bytes_per_sec :: int
  playlist :: "unit option"
  flush :: bool
  purge :: bool
  audioq :: GrooveQueue
  audioq_buf_count :: int
  audioq_size :: int
  min_audioq_size :: int

text \<open>The fields of an \<^verbatim>\<open>AVFrame\<close> that the engine reads.\<close>

record AVFrame =
  nb_samples :: int
  frame_channel_layout :: nat
  frame_format :: int
  frame_sample_rate :: int

text \<open>
  \<^verbatim>\<open>GrooveBuffer\<close> together with its \<^verbatim>\<open>GrooveBufferPrivate\<close>; \<open>buf_size\<close> is the
  field \<^verbatim>\<open>size\<close>, \<open>frame\<close> the address of the frame.
\<close>

record GrooveBuffer =
  item :: ptr
  pos :: double
  frame_count :: int
  format :: GrooveAudioFormat
  buf_size :: int
  frame :: nat
  ref_count :: int

record GroovePlaylistItem =
  "file" :: nat
  gain :: double
  prev :: ptr
  "next" :: ptr

text \<open>
  The fields of \<^verbatim>\<open>GrooveFilePrivate\<close> (file.h) that playlist.c reads and writes, with
  those it reaches through \<^verbatim>\<open>audio_st\<close> and \<^verbatim>\<open>ic\<close>: the parameters and the time
  base of the codec, \<open>cap_delay\<close> for the bit \<^verbatim>\<open>CODEC_CAP_DELAY\<close> of its
  capabilities, and \<open>start_time\<close>, which is \<open>None\<close> for \<^verbatim>\<open>AV_NOPTS_VALUE\<close>.
\<close>

record GrooveFile =
  f_abort_request :: int
  seek_pos :: int
  seek_flush :: int
  eof :: int
  audio_clock :: double
  codec_sample_rate :: int
  codec_channel_layout :: nat
  codec_sample_fmt :: int
  time_base_num :: int
  time_base_den :: int
  audio_stream_index :: int
  cap_delay :: bool
  start_time :: "int option"

text \<open>
  One \<^verbatim>\<open>SinkMap\<close> node. Its chain of \<^verbatim>\<open>SinkStack\<close> nodes is reachable from this node
  only, so it is the list of the sinks it holds, top of the stack first; an empty list is
  a NULL \<^verbatim>\<open>stack_head\<close>. The chain of \<^verbatim>\<open>SinkMap\<close> nodes is a list in the same way.
\<close>

record SinkMap =
  stack_head :: "nat list"
  aformat_ctx :: ptr
  abuffersink_ctx :: ptr

text \<open>
  A filter graph of libavfilter: the filters created in it (an \<^verbatim>\<open>AVFilterContext *\<close> is
  the position of its filter), each with the arguments the code formats into
  \<^verbatim>\<open>strbuf\<close>, and the links made between pads. The integer arguments are kept as
  they are (\<^verbatim>\<open>%d\<close> loses nothing); the argument of a volume filter is the text that
  \<^verbatim>\<open>snprintf\<close> made of \<^verbatim>\<open>"volume=%f"\<close>.
\<close>

datatype AVFilter =
    Abuffer int int int int nat
  | Volume string
  | Asplit int
  | Aformat GrooveAudioFormat
  | Abuffersink

record AVFilterGraph =
  nodes :: "AVFilter list"
  links :: "(ptr \<times> nat \<times> ptr \<times> nat) list"
  configured :: bool

text \<open>What the worker and the hooks do to the outside, in order.\<close>

datatype action =
    SDL_Delay nat
  | Decode_one_frame nat
  | Flush_hook nat
  | Purge_hook nat ptr

text \<open>
  \<^verbatim>\<open>GroovePlaylist\<close>, its \<^verbatim>\<open>GroovePlaylistPrivate\<close> (\<open>p_volume\<close> is the private
  \<^verbatim>\<open>volume\<close>) and the memory: \<open>items\<close>, \<open>buffers\<close> and \<open>frames\<close> are heaps,
  \<open>frames_freed\<close> lists the frames passed to \<^verbatim>\<open>av_frame_free\<close>, \<open>hook_calls\<close> the
  consumer hooks invoked.
\<close>

record GroovePlaylist =
  head :: ptr
  tail :: ptr
  volume :: double
  abort_request :: int
  paused :: int
  last_paused :: int
  in_sample_rate :: int
  in_channel_layout :: nat
  in_sample_fmt :: int
  in_time_base_num :: int
  in_time_base_den :: int
  filter_graph :: "AVFilterGraph option"
  abuffer_ctx :: ptr
  volume_ctx :: ptr
  asplit_ctx :: ptr
  decode_head :: ptr
  p_volume :: double
  rebuild_filter_graph_flag :: int
  sink_map :: "SinkMap list"
  sink_map_count :: int
  filter_volume :: double
  sent_end_of_q :: int
  purge_item :: ptr
  items :: "nat \<rightharpoonup> GroovePlaylistItem"
  buffers :: "nat \<rightharpoonup> GrooveBuffer"
  frames :: "nat \<rightharpoonup> AVFrame"
  frames_freed :: "nat list"
  sinks :: "nat \<Rightarrow> GrooveSink"
  files :: "nat \<Rightarrow> GrooveFile"
  hook_calls :: "action list"

text \<open>
  Arithmetic in C's \<^verbatim>\<open>int\<close>, 32 bits wide and signed: a result outside the range
  wraps around, as the compiled code computes it.
\<close>

definition int_wrap :: "int \<Rightarrow> int" where
  "int_wrap x = (x + 2147483648) mod 4294967296 - 2147483648"

definition int_mul :: "int \<Rightarrow> int \<Rightarrow> int" where
  "int_mul a b = int_wrap (a * b)"

definition int_add :: "int \<Rightarrow> int \<Rightarrow> int" where
  "int_add a b = int_wrap (a + b)"

definition NOOP_DELAY :: nat where
  "NOOP_DELAY = 5"

text \<open>
  \<^verbatim>\<open>static GrooveBuffer *end_of_q_sentinel = NULL;\<close> and nothing assigns it.
\<close>

definition end_of_q_sentinel :: ptr where
  "end_of_q_sentinel = None"

definition upd_sink :: "nat \<Rightarrow> (GrooveSink \<Rightarrow> GrooveSink) \<Rightarrow> GroovePlaylist \<Rightarrow> GroovePlaylist" where
  "upd_sink k f s = s\<lparr>sinks := (sinks s)(k := f (sinks s k))\<rparr>"

definition upd_file :: "nat \<Rightarrow> (GrooveFile \<Rightarrow> GrooveFile) \<Rightarrow> GroovePlaylist \<Rightarrow> GroovePlaylist" where
  "upd_file k f s = s\<lparr>files := (files s)(k := f (files s k))\<rparr>"

definition upd_item :: "nat \<Rightarrow> (GroovePlaylistItem \<Rightarrow> GroovePlaylistItem) \<Rightarrow> GroovePlaylist \<Rightarrow> GroovePlaylist" where
  "upd_item a f s = s\<lparr>items := (items s)(a := map_option f (items s a))\<rparr>"

subsection \<open>Buffers\<close>

text \<open>\<^verbatim>\<open>groove_buffer_ref\<close>: one more owner.\<close>

definition groove_buffer_ref :: "ptr \<Rightarrow> GroovePlaylist \<Rightarrow> GroovePlaylist outcome" where
  "groove_buffer_ref buffer s =
     (case buffer of
        None \<Rightarrow> Fault NullDeref
      | Some a \<Rightarrow>
          (case buffers s a of
             None \<Rightarrow> Fault (Dangling a)
           | Some b \<Rightarrow> Done (s\<lparr>buffers := (buffers s)(a \<mapsto> b\<lparr>ref_count := ref_count b + 1\<rparr>)\<rparr>)))"

text \<open>
  \<^verbatim>\<open>groove_buffer_unref\<close>: NULL is ignored; otherwise the count goes down by one, and
  when it is zero afterwards the frame and the buffer are freed.
\<close>

definition groove_buffer_unref :: "ptr \<Rightarrow> GroovePlaylist \<Rightarrow> GroovePlaylist outcome" where
  "groove_buffer_unref buffer s =
     (case buffer of
        None \<Rightarrow> Done s
      | Some a \<Rightarrow>
          (case buffers s a of
             None \<Rightarrow> Fault (Dangling a)
           | Some b \<Rightarrow>
               let b' = b\<lparr>ref_count := ref_count b - 1\<rparr> in
               if ref_count b' = 0 then
                 (case frames s (frame b') of
                    None \<Rightarrow> Fault (Dangling (frame b'))
                  | Some fr \<Rightarrow>
                      Done (s\<lparr>frames := (frames s)(frame b' := None),
                              frames_freed := frames_freed s @ [frame b'],
                              buffers := (buffers s)(a := None)\<rparr>))
               else Done (s\<lparr>buffers := (buffers s)(a \<mapsto> b')\<rparr>)))"

subsection \<open>The hooks of a sink queue\<close>

text \<open>
  The four hooks that \<^verbatim>\<open>groove_sink_create\<close> installs on the queue of a sink; the
  first argument is the sink the queue belongs to (\<^verbatim>\<open>queue->context\<close>).
\<close>

definition audioq_put :: "nat \<Rightarrow> ptr \<Rightarrow> GroovePlaylist \<Rightarrow> GroovePlaylist outcome" where
  "audioq_put sink obj s =
     (if obj = end_of_q_sentinel then Done s
      else and_then (deref (buffers s) obj) (\<lambda>buffer.
        Done (upd_sink sink (\<lambda>k. k\<lparr>audioq_buf_count := audioq_buf_count k + 1,
                                   audioq_size := audioq_size k + buf_size buffer\<rparr>) s)))"

definition audioq_get :: "nat \<Rightarrow> ptr \<Rightarrow> GroovePlaylist \<Rightarrow> GroovePlaylist outcome" where
  "audioq_get sink obj s =
     (if obj = end_of_q_sentinel then Done s
      else and_then (deref (buffers s) obj) (\<lambda>buffer.
        Done (upd_sink sink (\<lambda>k. k\<lparr>audioq_buf_count := audioq_buf_count k - 1,
                                   audioq_size := audioq_size k - buf_size buffer\<rparr>) s)))"

definition audioq_cleanup :: "nat \<Rightarrow> ptr \<Rightarrow> GroovePlaylist \<Rightarrow> GroovePlaylist outcome" where
  "audioq_cleanup sink obj s =
     (if obj = end_of_q_sentinel then Done s
      else and_then (deref (buffers s) obj) (\<lambda>buffer.
        groove_buffer_unref obj
          (upd_sink sink (\<lambda>k. k\<lparr>audioq_buf_count := audioq_buf_count k - 1,
                                audioq_size := audioq_size k - buf_size buffer\<rparr>) s)))"

text \<open>\<^verbatim>\<open>audioq_purge\<close> reads \<^verbatim>\<open>buffer->item\<close> without looking for the sentinel.\<close>

definition audioq_purge :: "nat \<Rightarrow> ptr \<Rightarrow> GroovePlaylist \<Rightarrow> bool outcome" where
  "audioq_purge sink obj s =
     and_then (deref (buffers s) obj) (\<lambda>buffer. Done (item buffer = purge_item s))"

subsection \<open>The queue primitive\<close>

text \<open>
  Modelled from the spec: the queue primitive (queue.h, queue.c) is not among the
  sources. Section 4.2 of the spec gives its operations: put, get with a blocking flag
  returning 1 when it got an entry, flush draining the queue and freeing the contents
  through the cleanup hook, abort waking the getters with not-got, reset clearing the
  abort state, purge removing the entries for which the predicate holds; section 7 says
  that a put fails only on an aborted queue. Each operation calls the hook of the same
  name. The queue is the one of the sink given first.
\<close>

definition groove_queue_put :: "nat \<Rightarrow> ptr \<Rightarrow> GroovePlaylist \<Rightarrow> (int \<times> GroovePlaylist) outcome" where
  "groove_queue_put sink obj s =
     (let q = audioq (sinks s sink) in
      if q_abort_request q then Done (- 1, s)
      else and_then
             (audioq_put sink obj
                (upd_sink sink (\<lambda>k. k\<lparr>audioq := q\<lparr>entries := entries q @ [obj]\<rparr>\<rparr>) s))
             (\<lambda>s'. Done (0, s')))"

text \<open>
  The result of a get: the return value, the value written through the out-parameter
  (\<open>None\<close> when nothing was written) and the state. A blocking get on an empty queue
  waits for another thread.
\<close>

definition groove_queue_get ::
  "nat \<Rightarrow> bool \<Rightarrow> GroovePlaylist \<Rightarrow> (int \<times> ptr option \<times> GroovePlaylist) outcome" where
  "groove_queue_get sink block s =
     (let q = audioq (sinks s sink) in
      if q_abort_request q then Done (- 1, None, s)
      else
        (case entries q of
           obj # rest \<Rightarrow>
             and_then
               (audioq_get sink obj (upd_sink sink (\<lambda>k. k\<lparr>audioq := q\<lparr>entries := rest\<rparr>\<rparr>) s))
               (\<lambda>s'. Done (1, Some obj, s'))
         | [] \<Rightarrow> if block then Blocked else Done (0, None, s)))"

fun flush_entries :: "nat \<Rightarrow> ptr list \<Rightarrow> GroovePlaylist \<Rightarrow> GroovePlaylist outcome" where
  "flush_entries sink [] s = Done s"
| "flush_entries sink (obj # rest) s =
     and_then (audioq_cleanup sink obj s) (flush_entries sink rest)"

definition groove_queue_flush :: "nat \<Rightarrow> GroovePlaylist \<Rightarrow> GroovePlaylist outcome" where
  "groove_queue_flush sink s =
     and_then (flush_entries sink (entries (audioq (sinks s sink))) s) (\<lambda>s'.
       Done (upd_sink sink (\<lambda>k. k\<lparr>audioq := (audioq k)\<lparr>entries := []\<rparr>\<rparr>) s'))"

definition groove_queue_abort :: "nat \<Rightarrow> GroovePlaylist \<Rightarrow> GroovePlaylist" where
  "groove_queue_abort sink s =
     upd_sink sink (\<lambda>k. k\<lparr>audioq := (audioq k)\<lparr>q_abort_request := True\<rparr>\<rparr>) s"

definition groove_queue_reset :: "nat \<Rightarrow> GroovePlaylist \<Rightarrow> GroovePlaylist" where
  "groove_queue_reset sink s =
     upd_sink sink (\<lambda>k. k\<lparr>audioq := (audioq k)\<lparr>q_abort_request := False\<rparr>\<rparr>) s"

fun purge_entries :: "nat \<Rightarrow> ptr list \<Rightarrow> GroovePlaylist \<Rightarrow> ptr list outcome" where
  "purge_entries sink [] s = Done []"
| "purge_entries sink (obj # rest) s =
     and_then (audioq_purge sink obj s) (\<lambda>gone.
       and_then (purge_entries sink rest s) (\<lambda>kept.
         Done (if gone then kept else obj # kept)))"

definition groove_queue_purge :: "nat \<Rightarrow> GroovePlaylist \<Rightarrow> GroovePlaylist outcome" where
  "groove_queue_purge sink s =
     and_then (purge_entries sink (entries (audioq (sinks s sink))) s) (\<lambda>kept.
       Done (upd_sink sink (\<lambda>k. k\<lparr>audioq := (audioq k)\<lparr>entries := kept\<rparr>\<rparr>) s))"

subsection \<open>Visiting every sink\<close>

text \<open>
  \<^verbatim>\<open>every_sink\<close>: the classes in list order, each stack from its top; the first value
  that differs from \<open>default_value\<close> is returned at once. The inner loop yields
  \<open>Some\<close> of that value, or \<open>None\<close> when it reached the end of the stack. The
  functions passed here leave the sink map as it is.
\<close>

fun every_sink_stack ::
  "(nat \<Rightarrow> GroovePlaylist \<Rightarrow> (int \<times> GroovePlaylist) outcome) \<Rightarrow> int \<Rightarrow> nat list \<Rightarrow>
   GroovePlaylist \<Rightarrow> (int option \<times> GroovePlaylist) outcome" where
  "every_sink_stack func default_value [] s = Done (None, s)"
| "every_sink_stack func default_value (sink # rest) s =
     and_then (func sink s) (\<lambda>(v, s').
       if v \<noteq> default_value then Done (Some v, s')
       else every_sink_stack func default_value rest s')"

fun every_sink_map ::
  "(nat \<Rightarrow> GroovePlaylist \<Rightarrow> (int \<times> GroovePlaylist) outcome) \<Rightarrow> int \<Rightarrow> SinkMap list \<Rightarrow>
   GroovePlaylist \<Rightarrow> (int \<times> GroovePlaylist) outcome" where
  "every_sink_map func default_value [] s = Done (default_value, s)"
| "every_sink_map func default_value (map_item # rest) s =
     and_then (every_sink_stack func default_value (stack_head map_item) s) (\<lambda>(r, s').
       case r of
         Some v \<Rightarrow> Done (v, s')
       | None \<Rightarrow> every_sink_map func default_value rest s')"

definition every_sink ::
  "(nat \<Rightarrow> GroovePlaylist \<Rightarrow> (int \<times> GroovePlaylist) outcome) \<Rightarrow> int \<Rightarrow>
   GroovePlaylist \<Rightarrow> (int \<times> GroovePlaylist) outcome" where
  "every_sink func default_value s = every_sink_map func default_value (sink_map s) s"

definition sink_is_full :: "nat \<Rightarrow> GroovePlaylist \<Rightarrow> (int \<times> GroovePlaylist) outcome" where
  "sink_is_full sink s =
     Done (if audioq_size (sinks s sink) \<ge> min_audioq_size (sinks s sink) then 1 else 0, s)"

definition every_sink_full :: "GroovePlaylist \<Rightarrow> (int \<times> GroovePlaylist) outcome" where
  "every_sink_full s = every_sink sink_is_full 1 s"

definition sink_signal_end :: "nat \<Rightarrow> GroovePlaylist \<Rightarrow> (int \<times> GroovePlaylist) outcome" where
  "sink_signal_end sink s =
     and_then (groove_queue_put sink end_of_q_sentinel s) (\<lambda>(r, s'). Done (0, s'))"

definition every_sink_signal_end :: "GroovePlaylist \<Rightarrow> GroovePlaylist outcome" where
  "every_sink_signal_end s =
     and_then (every_sink sink_signal_end 0 s) (\<lambda>(r, s'). Done s')"

definition sink_flush :: "nat \<Rightarrow> GroovePlaylist \<Rightarrow> (int \<times> GroovePlaylist) outcome" where
  "sink_flush sink s =
     and_then (groove_queue_flush sink s) (\<lambda>s'.
       Done (0, if flush (sinks s' sink)
                then s'\<lparr>hook_calls := hook_calls s' @ [Flush_hook sink]\<rparr> else s'))"

definition every_sink_flush :: "GroovePlaylist \<Rightarrow> GroovePlaylist outcome" where
  "every_sink_flush s = and_then (every_sink sink_flush 0 s) (\<lambda>(r, s'). Done s')"

text \<open>
  \<^verbatim>\<open>purge_sink\<close> reaches \<^verbatim>\<open>purge_item\<close> through the back-reference of the sink.
\<close>

definition purge_sink :: "nat \<Rightarrow> GroovePlaylist \<Rightarrow> (int \<times> GroovePlaylist) outcome" where
  "purge_sink sink s =
     and_then (groove_queue_purge sink s) (\<lambda>s'.
       case playlist (sinks s' sink) of
         None \<Rightarrow> Fault NullDeref
       | Some u \<Rightarrow>
           Done (0, if purge (sinks s' sink)
                    then s'\<lparr>hook_calls := hook_calls s' @ [Purge_hook sink (purge_item s')]\<rparr>
                    else s'))"

subsection \<open>The sink map: attach and detach\<close>

definition audio_formats_equal :: "GrooveAudioFormat \<Rightarrow> GrooveAudioFormat \<Rightarrow> bool" where
  "audio_formats_equal a b =
     (sample_rate a = sample_rate b \<and> channel_layout a = channel_layout b \<and>
      sample_fmt a = sample_fmt b)"

text \<open>
  \<^verbatim>\<open>remove_sink_from_map\<close>, inner loop: the stack without the first entry for the
  sink, or \<open>None\<close> when the stack has no entry for it.
\<close>

fun remove_from_stack :: "nat \<Rightarrow> nat list \<Rightarrow> nat list option" where
  "remove_from_stack sink [] = None"
| "remove_from_stack sink (item_sink # rest) =
     (if item_sink = sink then Some rest
      else map_option (Cons item_sink) (remove_from_stack sink rest))"

text \<open>
  Outer loop: the first class that holds the sink loses that entry; a class whose stack
  is empty afterwards is deleted, which the flag reports.
\<close>

fun remove_from_map :: "nat \<Rightarrow> SinkMap list \<Rightarrow> (SinkMap list \<times> bool) option" where
  "remove_from_map sink [] = None"
| "remove_from_map sink (map_item # rest) =
     (case remove_from_stack sink (stack_head map_item) of
        Some st \<Rightarrow>
          if st = [] then Some (rest, True)
          else Some (map_item\<lparr>stack_head := st\<rparr> # rest, False)
      | None \<Rightarrow> map_option (\<lambda>(ms, deleted). (map_item # ms, deleted)) (remove_from_map sink rest))"

definition remove_sink_from_map :: "nat \<Rightarrow> GroovePlaylist \<Rightarrow> int \<times> GroovePlaylist" where
  "remove_sink_from_map sink s =
     (case remove_from_map sink (sink_map s) of
        None \<Rightarrow> (- 1, s)
      | Some (ms, deleted) \<Rightarrow>
          (0, s\<lparr>sink_map := ms,
                sink_map_count := (if deleted then sink_map_count s - 1 else sink_map_count s)\<rparr>))"

text \<open>
  \<^verbatim>\<open>add_sink_to_map\<close>, the scan: the sink is pushed on the first class whose example
  sink (the top of its stack) has the same format; \<open>None\<close> when no class has.
\<close>

fun push_on_class ::
  "(nat \<Rightarrow> GrooveSink) \<Rightarrow> nat \<Rightarrow> SinkMap list \<Rightarrow> SinkMap list option outcome" where
  "push_on_class sk sink [] = Done None"
| "push_on_class sk sink (map_item # rest) =
     (case stack_head map_item of
        [] \<Rightarrow> Fault NullDeref
      | example_sink # others \<Rightarrow>
          if audio_formats_equal (audio_format (sk example_sink)) (audio_format (sk sink))
          then Done (Some (map_item\<lparr>stack_head := sink # stack_head map_item\<rparr> # rest))
          else and_then (push_on_class sk sink rest) (\<lambda>r. Done (map_option (Cons map_item) r)))"

text \<open>
  \<^verbatim>\<open>add_sink_to_map\<close>. \<open>stack_entry\<close> and \<open>map_entry\<close> are what the two calls of
  \<^verbatim>\<open>av_mallocz\<close> return. Line 674 stores through \<^verbatim>\<open>stack_entry\<close> and line 676 tests
  it; line 693 stores through \<^verbatim>\<open>map_entry\<close> and line 694 tests it.
\<close>

definition add_sink_to_map ::
  "ptr \<Rightarrow> ptr \<Rightarrow> nat \<Rightarrow> GroovePlaylist \<Rightarrow> (int \<times> GroovePlaylist) outcome" where
  "add_sink_to_map stack_entry map_entry sink s =
     (case stack_entry of
        None \<Rightarrow> Fault NullDeref
      | Some se \<Rightarrow>
          if stack_entry = None then Done (- 1, s)
          else and_then (push_on_class (sinks s) sink (sink_map s)) (\<lambda>r.
            case r of
              Some ms \<Rightarrow> Done (0, s\<lparr>sink_map := ms\<rparr>)
            | None \<Rightarrow>
                (case map_entry of
                   None \<Rightarrow> Fault NullDeref
                 | Some me \<Rightarrow>
                     if map_entry = None then Done (- 1, s)
                     else Done (0, s\<lparr>sink_map :=
                                        \<lparr>stack_head = [sink], aformat_ctx = None,
                                         abuffersink_ctx = None\<rparr> # sink_map s,
                                      sink_map_count := sink_map_count s + 1\<rparr>))))"

definition groove_sink_detach :: "nat \<Rightarrow> GroovePlaylist \<Rightarrow> (int \<times> GroovePlaylist) outcome" where
  "groove_sink_detach sink s =
     (case playlist (sinks s sink) of
        None \<Rightarrow> Done (- 1, s)
      | Some u \<Rightarrow>
          and_then (groove_queue_flush sink (groove_queue_abort sink s)) (\<lambda>s1.
            let (err, s2) = remove_sink_from_map sink s1
            in Done (err, upd_sink sink (\<lambda>k. k\<lparr>playlist := None\<rparr>) s2)))"

text \<open>
  The two functions of libavutil that \<^verbatim>\<open>groove_sink_attach\<close> and \<^verbatim>\<open>frame_size\<close>
  call, as parameters. Both return a C \<^verbatim>\<open>int\<close>, and the products the code takes of
  them are products of \<^verbatim>\<open>int\<close>: \<open>int_mul\<close>, which wraps around at 32 bits.
\<close>

record libavutil =
  av_get_channel_layout_nb_channels :: "nat \<Rightarrow> int"
  av_get_bytes_per_sample :: "int \<Rightarrow> int"

definition groove_sink_attach ::
  "libavutil \<Rightarrow> ptr \<Rightarrow> ptr \<Rightarrow> nat \<Rightarrow> GroovePlaylist \<Rightarrow> (int \<times> GroovePlaylist) outcome" where
  "groove_sink_attach lib stack_entry map_entry sink s =
     (let fmt = audio_format (sinks s sink);
          channel_count = av_get_channel_layout_nb_channels lib (channel_layout fmt);
          s1 = upd_sink sink (\<lambda>k. k\<lparr>bytes_per_sec :=
                   int_mul (int_mul channel_count (sample_rate fmt))
                     (av_get_bytes_per_sample lib (sample_fmt fmt))\<rparr>) s;
          s2 = upd_sink sink (\<lambda>k. k\<lparr>min_audioq_size :=
                   int_mul (int_mul (buffer_size k) channel_count)
                     (av_get_bytes_per_sample lib (sample_fmt fmt))\<rparr>) s1
      in and_then (add_sink_to_map stack_entry map_entry sink s2) (\<lambda>(err, s3).
           if err < 0 then Done (err, s3)
           else Done (0, upd_sink sink (\<lambda>k. k\<lparr>playlist := Some ()\<rparr>)
                           (groove_queue_reset sink s3))))"

text \<open>
  The codes of \<^verbatim>\<open>groove_sink_get_buffer\<close> (groove.h). The second argument is what
  \<^verbatim>\<open>*buffer\<close> holds before the call, the second component of the result what it holds
  afterwards.
\<close>

datatype buffer_result = GROOVE_BUFFER_NO | GROOVE_BUFFER_YES | GROOVE_BUFFER_END

definition groove_sink_get_buffer ::
  "nat \<Rightarrow> ptr \<Rightarrow> bool \<Rightarrow> GroovePlaylist \<Rightarrow> (buffer_result \<times> ptr \<times> GroovePlaylist) outcome" where
  "groove_sink_get_buffer sink buffer block s =
     and_then (groove_queue_get sink block s) (\<lambda>(r, written, s').
       let buffer1 = (case written of None \<Rightarrow> buffer | Some obj \<Rightarrow> obj) in
       if r = 1 then
         (if buffer1 = end_of_q_sentinel then Done (GROOVE_BUFFER_END, None, s')
          else Done (GROOVE_BUFFER_YES, buffer1, s'))
       else Done (GROOVE_BUFFER_NO, None, s'))"

subsection \<open>The playlist: insert, remove, clear, count\<close>

text \<open>
  \<^verbatim>\<open>groove_playlist_insert\<close>. The first argument is what \<^verbatim>\<open>av_mallocz\<close> returns: NULL,
  or the address of a zeroed item. The result is the returned pointer and the state.
\<close>

definition groove_playlist_insert ::
  "ptr \<Rightarrow> nat \<Rightarrow> double \<Rightarrow> ptr \<Rightarrow> GroovePlaylist \<Rightarrow> (ptr \<times> GroovePlaylist) outcome" where
  "groove_playlist_insert alloc fl gn nxt s =
     (case alloc of
        None \<Rightarrow> Done (None, s)
      | Some a \<Rightarrow>
          let s1 = s\<lparr>items := (items s)(a \<mapsto> \<lparr>file = fl, gain = gn, prev = None, next = nxt\<rparr>)\<rparr> in
          (case nxt of
             Some n \<Rightarrow>
               and_then (deref (items s1) nxt) (\<lambda>next_item.
                 case prev next_item of
                   Some pv \<Rightarrow>
                     let s2 = upd_item a (\<lambda>i. i\<lparr>prev := prev next_item\<rparr>) s1 in
                     and_then (deref (items s2) (Some pv)) (\<lambda>prev_item.
                       let s3 = upd_item pv (\<lambda>i. i\<lparr>next := Some a\<rparr>) s2;
                           s4 = upd_item n (\<lambda>i. i\<lparr>prev := Some a\<rparr>) s3
                       in Done (Some a, s4))
                 | None \<Rightarrow> Done (Some a, s1\<lparr>head := Some a\<rparr>))
           | None \<Rightarrow>
               (case head s1 of
                  None \<Rightarrow>
                    let s2 = s1\<lparr>head := Some a, tail := Some a\<rparr>;
                        s3 = s2\<lparr>decode_head := head s2\<rparr>
                    in Done (Some a, upd_file fl (\<lambda>f. f\<lparr>seek_pos := 0, seek_flush := 0\<rparr>) s3)
                | Some h \<Rightarrow>
                    let s2 = upd_item a (\<lambda>i. i\<lparr>prev := tail s1\<rparr>) s1 in
                    and_then (deref (items s2) (tail s2)) (\<lambda>tail_item.
                      case tail s2 of
                        None \<Rightarrow> Fault NullDeref
                      | Some t \<Rightarrow>
                          let s3 = upd_item t (\<lambda>i. i\<lparr>next := Some a\<rparr>) s2
                          in Done (Some a, s3\<lparr>tail := Some a\<rparr>)))))"

text \<open>
  \<^verbatim>\<open>groove_playlist_remove\<close>: the item is read again after each store, as the C code
  reads \<^verbatim>\<open>item->next\<close> and \<^verbatim>\<open>item->prev\<close> from memory; the last step frees it.
\<close>

definition groove_playlist_remove :: "ptr \<Rightarrow> GroovePlaylist \<Rightarrow> GroovePlaylist outcome" where
  "groove_playlist_remove itm s =
     and_then (deref (items s) itm) (\<lambda>i0.
       let s1 = (if itm = decode_head s then s\<lparr>decode_head := next i0\<rparr> else s) in
       and_then
         (case prev i0 of
            Some pv \<Rightarrow>
              and_then (deref (items s1) (Some pv)) (\<lambda>prev_item.
                Done (upd_item pv (\<lambda>i. i\<lparr>next := next i0\<rparr>) s1))
          | None \<Rightarrow> Done (s1\<lparr>head := next i0\<rparr>))
         (\<lambda>s2.
            and_then (deref (items s2) itm) (\<lambda>i2.
              and_then
                (case next i2 of
                   Some n \<Rightarrow>
                     and_then (deref (items s2) (Some n)) (\<lambda>next_item.
                       Done (upd_item n (\<lambda>i. i\<lparr>prev := prev i2\<rparr>) s2))
                 | None \<Rightarrow> Done (s2\<lparr>tail := prev i2\<rparr>))
                (\<lambda>s3.
                   and_then (every_sink purge_sink 0 (s3\<lparr>purge_item := itm\<rparr>)) (\<lambda>(r, s4).
                     let s5 = s4\<lparr>purge_item := None\<rparr> in
                     case itm of
                       None \<Rightarrow> Done s5
                     | Some a \<Rightarrow> Done (s5\<lparr>items := (items s5)(a := None)\<rparr>))))))"

text \<open>
  \<^verbatim>\<open>groove_playlist_clear\<close>: the loop removes \<^verbatim>\<open>node\<close> and then reads
  \<^verbatim>\<open>node->next\<close>. A loop over pointers need not end; \<open>None\<close> is the run that does
  not return.
\<close>

partial_function (option) clear_loop :: "ptr \<Rightarrow> GroovePlaylist \<Rightarrow> GroovePlaylist outcome option" where
  "clear_loop node s =
     (case node of
        None \<Rightarrow> Some (Done s)
      | Some a \<Rightarrow>
          (case groove_playlist_remove node s of
             Fault e \<Rightarrow> Some (Fault e)
           | Blocked \<Rightarrow> Some Blocked
           | Done s1 \<Rightarrow>
               (case deref (items s1) node of
                  Fault e \<Rightarrow> Some (Fault e)
                | Blocked \<Rightarrow> Some Blocked
                | Done i \<Rightarrow> clear_loop (next i) s1)))"

definition groove_playlist_clear :: "GroovePlaylist \<Rightarrow> GroovePlaylist outcome option" where
  "groove_playlist_clear s =
     (let node = head s in if node = None then Some (Done s) else clear_loop node s)"

partial_function (option) count_loop :: "ptr \<Rightarrow> int \<Rightarrow> GroovePlaylist \<Rightarrow> int outcome option" where
  "count_loop node count s =
     (case node of
        None \<Rightarrow> Some (Done count)
      | Some a \<Rightarrow>
          (case deref (items s) node of
             Fault e \<Rightarrow> Some (Fault e)
           | Blocked \<Rightarrow> Some Blocked
           | Done i \<Rightarrow> count_loop (next i) (count + 1) s))"

definition groove_playlist_count :: "GroovePlaylist \<Rightarrow> int outcome option" where
  "groove_playlist_count s = count_loop (head s) 0 s"

subsection \<open>Building the filter graph\<close>

text \<open>
  What the libraries answer during one build, as parameters: the text that
  \<^verbatim>\<open>snprintf(p->strbuf, sizeof(p->strbuf), "volume=%f", vol)\<close> writes for a value of
  \<^verbatim>\<open>vol\<close> (six decimals), whether libavfilter could allocate the graph, and the
  return value of every call that creates, links or configures (the calls made for a
  class are indexed by its pad). The code takes a negative value as a failure.
\<close>

record avfilter_results =
  snprintf_volume :: "double \<Rightarrow> string"
  graph_alloc :: bool
  abuffer_err :: int
  volume_err :: int
  volume_link_err :: int
  asplit_err :: int
  asplit_link_err :: int
  aformat_err :: "nat \<Rightarrow> int"
  aformat_link_err :: "nat \<Rightarrow> int"
  abuffersink_err :: "nat \<Rightarrow> int"
  abuffersink_link_err :: "nat \<Rightarrow> int"
  config_err :: int

text \<open>
  \<^verbatim>\<open>avfilter_graph_create_filter\<close>: on success the filter joins the graph and the
  context points to it; on failure the context is NULL. \<^verbatim>\<open>avfilter_link\<close> records
  the link on success.
\<close>

definition avfilter_graph_create_filter ::
  "int \<Rightarrow> AVFilter \<Rightarrow> AVFilterGraph \<Rightarrow> int \<times> ptr \<times> AVFilterGraph" where
  "avfilter_graph_create_filter err flt g =
     (if err < 0 then (err, None, g)
      else (err, Some (length (nodes g)), g\<lparr>nodes := nodes g @ [flt]\<rparr>))"

definition avfilter_link ::
  "int \<Rightarrow> ptr \<Rightarrow> nat \<Rightarrow> ptr \<Rightarrow> nat \<Rightarrow> AVFilterGraph \<Rightarrow> int \<times> AVFilterGraph" where
  "avfilter_link err src srcpad dst dstpad g =
     (if err < 0 then (err, g) else (err, g\<lparr>links := links g @ [(src, srcpad, dst, dstpad)]\<rparr>))"

text \<open>
  \<^verbatim>\<open>init_filter_graph\<close> in four stages. A stage either returns from the function
  with an error code, or goes on with the source context to link to next
  (\<^verbatim>\<open>audio_src_ctx\<close>), the graph and the state.
\<close>

datatype stage = Return int GroovePlaylist | Continue ptr AVFilterGraph GroovePlaylist

text \<open>Lines 287 to 311: the volume filter.\<close>

definition init_filter_graph_volume ::
  "avfilter_results \<Rightarrow> ptr \<Rightarrow> AVFilterGraph \<Rightarrow> GroovePlaylist \<Rightarrow> stage" where
  "init_filter_graph_volume av audio_src_ctx g s =
     (let s1 = s\<lparr>filter_volume := p_volume s\<rparr>;
          vol0 = p_volume s1;
          vol1 = (if dgreater vol0 (Fin 1) then Fin 1 else vol0);
          vol = (if dless vol1 (Fin 0) then Fin 0 else vol1)
      in if deq vol (Fin 1) then Continue audio_src_ctx g (s1\<lparr>volume_ctx := None\<rparr>)
         else
           let (err, ctx, g1) = avfilter_graph_create_filter (volume_err av) (Volume (snprintf_volume av vol)) g;
               s2 = s1\<lparr>volume_ctx := ctx, filter_graph := Some g1\<rparr>
           in if err < 0 then Return err s2
              else
                let (err, g2) = avfilter_link (volume_link_err av) audio_src_ctx 0 ctx 0 g1;
                    s3 = s2\<lparr>filter_graph := Some g2\<rparr>
                in if err < 0 then Return err s3 else Continue (volume_ctx s3) g2 s3)"

text \<open>Lines 313 to 331: the split filter.\<close>

definition init_filter_graph_asplit ::
  "avfilter_results \<Rightarrow> ptr \<Rightarrow> AVFilterGraph \<Rightarrow> GroovePlaylist \<Rightarrow> stage" where
  "init_filter_graph_asplit av audio_src_ctx g s =
     (if sink_map_count s < 2 then Continue audio_src_ctx g (s\<lparr>asplit_ctx := None\<rparr>)
      else
        let (err, ctx, g1) = avfilter_graph_create_filter (asplit_err av) (Asplit (sink_map_count s)) g;
            s2 = s\<lparr>asplit_ctx := ctx, filter_graph := Some g1\<rparr>
        in if err < 0 then Return err s2
           else
             let (err, g2) = avfilter_link (asplit_link_err av) audio_src_ctx 0 ctx 0 g1;
                 s3 = s2\<lparr>filter_graph := Some g2\<rparr>
             in if err < 0 then Return err s3 else Continue (asplit_ctx s3) g2 s3)"

text \<open>
  Lines 333 to 375: one format filter and one output port for each class, in list
  order. The result is the error code (negative when the loop returned early), the
  classes with their contexts, and the graph.
\<close>

fun init_filter_graph_classes ::
  "avfilter_results \<Rightarrow> (nat \<Rightarrow> GrooveSink) \<Rightarrow> ptr \<Rightarrow> nat \<Rightarrow> SinkMap list \<Rightarrow> AVFilterGraph \<Rightarrow>
   (int \<times> SinkMap list \<times> AVFilterGraph) outcome" where
  "init_filter_graph_classes av sk audio_src_ctx pad_index [] g = Done (0, [], g)"
| "init_filter_graph_classes av sk audio_src_ctx pad_index (map_item # rest) g =
     (case stack_head map_item of
        [] \<Rightarrow> Fault NullDeref
      | example_sink # others \<Rightarrow>
          let (err, actx, g1) =
                avfilter_graph_create_filter (aformat_err av pad_index)
                  (Aformat (audio_format (sk example_sink))) g;
              m1 = map_item\<lparr>aformat_ctx := actx\<rparr>
          in if err < 0 then Done (err, m1 # rest, g1)
             else
               let (err, g2) = avfilter_link (aformat_link_err av pad_index)
                                 audio_src_ctx pad_index actx 0 g1
               in if err < 0 then Done (err, m1 # rest, g2)
                  else
                    let (err, sctx, g3) =
                          avfilter_graph_create_filter (abuffersink_err av pad_index) Abuffersink g2;
                        m2 = m1\<lparr>abuffersink_ctx := sctx\<rparr>
                    in if err < 0 then Done (err, m2 # rest, g3)
                       else
                         let (err, g4) = avfilter_link (abuffersink_link_err av pad_index)
                                           actx 0 sctx 0 g3
                         in if err < 0 then Done (err, m2 # rest, g4)
                            else and_then
                                   (init_filter_graph_classes av sk audio_src_ctx
                                      (pad_index + 1) rest g4)
                                   (\<lambda>(err, ms, g5). Done (err, m2 # ms, g5)))"

definition init_filter_graph ::
  "avfilter_results \<Rightarrow> nat \<Rightarrow> GroovePlaylist \<Rightarrow> (int \<times> GroovePlaylist) outcome" where
  "init_filter_graph av fl s =
     (let s0 = s\<lparr>filter_graph := None\<rparr> in
      if \<not> graph_alloc av then Done (- 1, s0)
      else
        let f = files s0 fl;
            s1 = s0\<lparr>in_sample_rate := codec_sample_rate f,
                    in_channel_layout := codec_channel_layout f,
                    in_sample_fmt := codec_sample_fmt f,
                    in_time_base_num := time_base_num f,
                    in_time_base_den := time_base_den f\<rparr>;
            (err, ctx, g1) =
              avfilter_graph_create_filter (abuffer_err av)
                (Abuffer (time_base_num f) (time_base_den f) (codec_sample_rate f)
                   (codec_sample_fmt f) (codec_channel_layout f))
                \<lparr>nodes = [], links = [], configured = False\<rparr>;
            s2 = s1\<lparr>abuffer_ctx := ctx, filter_graph := Some g1\<rparr>
        in if err < 0 then Done (err, s2)
           else
             (case init_filter_graph_volume av (abuffer_ctx s2) g1 s2 of
                Return e s3 \<Rightarrow> Done (e, s3)
              | Continue src3 g3 s3 \<Rightarrow>
                  (case init_filter_graph_asplit av src3 g3 s3 of
                     Return e s4 \<Rightarrow> Done (e, s4)
                   | Continue src4 g4 s4 \<Rightarrow>
                       and_then
                         (init_filter_graph_classes av (sinks s4) src4 0 (sink_map s4) g4)
                         (\<lambda>(err, ms, g5).
                            let s5 = s4\<lparr>sink_map := ms, filter_graph := Some g5\<rparr> in
                            if err < 0 then Done (err, s5)
                            else if config_err av < 0 then Done (config_err av, s5)
                            else Done (0, s5\<lparr>filter_graph := Some (g5\<lparr>configured := True\<rparr>),
                                             rebuild_filter_graph_flag := 0\<rparr>)))))"

definition maybe_init_filter_graph ::
  "avfilter_results \<Rightarrow> nat \<Rightarrow> GroovePlaylist \<Rightarrow> (int \<times> GroovePlaylist) outcome" where
  "maybe_init_filter_graph av fl s =
     (let f = files s fl in
      if filter_graph s = None \<or> rebuild_filter_graph_flag s \<noteq> 0 \<or>
         in_sample_rate s \<noteq> codec_sample_rate f \<or>
         in_channel_layout s \<noteq> codec_channel_layout f \<or>
         in_sample_fmt s \<noteq> codec_sample_fmt f \<or>
         in_time_base_num s \<noteq> time_base_num f \<or>
         in_time_base_den s \<noteq> time_base_den f \<or>
         \<not> deq (p_volume s) (filter_volume s)
      then init_filter_graph av fl s
      else Done (0, s))"

text \<open>
  \<^verbatim>\<open>groove_playlist_set_volume\<close>: the volume of the playlist, and the volume for the
  filter, which is the product with the gain of the item being decoded when there is
  one. The multiplication of doubles is a parameter.
\<close>

definition groove_playlist_set_volume ::
  "(double \<Rightarrow> double \<Rightarrow> double) \<Rightarrow> double \<Rightarrow> GroovePlaylist \<Rightarrow> GroovePlaylist outcome" where
  "groove_playlist_set_volume fmul vol s =
     (let s1 = s\<lparr>volume := vol\<rparr> in
      case decode_head s1 of
        None \<Rightarrow> Done (s1\<lparr>p_volume := vol\<rparr>)
      | Some a \<Rightarrow>
          and_then (deref (items s1) (decode_head s1)) (\<lambda>dh.
            Done (s1\<lparr>p_volume := fmul vol (gain dh)\<rparr>)))"

subsection \<open>From a filtered frame to the sink queues\<close>

definition frame_size :: "libavutil \<Rightarrow> AVFrame \<Rightarrow> int" where
  "frame_size lib fr =
     int_mul
       (int_mul (av_get_channel_layout_nb_channels lib (frame_channel_layout fr))
          (av_get_bytes_per_sample lib (frame_format fr)))
       (nb_samples fr)"

text \<open>
  \<^verbatim>\<open>frame_to_groove_buffer\<close>. \<open>buffer\<close> and \<open>b\<close> are what the two calls of
  \<^verbatim>\<open>av_mallocz\<close> return (the two structures live at the address \<open>buffer\<close>),
  \<open>mutex\<close> says whether \<^verbatim>\<open>SDL_CreateMutex\<close> succeeded. The memory is zeroed, so the
  new buffer has \<open>ref_count = 0\<close>.
\<close>

definition frame_to_groove_buffer ::
  "libavutil \<Rightarrow> ptr \<Rightarrow> bool \<Rightarrow> bool \<Rightarrow> nat \<Rightarrow> GroovePlaylist \<Rightarrow> (ptr \<times> GroovePlaylist) outcome" where
  "frame_to_groove_buffer lib buffer b mutex fr s =
     (case buffer of
        None \<Rightarrow> Done (None, s)
      | Some a \<Rightarrow>
          if \<not> b then Done (None, s)
          else if \<not> mutex then Done (None, s)
          else
            and_then (deref (items s) (decode_head s)) (\<lambda>dh.
              and_then (deref (frames s) (Some fr)) (\<lambda>fm.
                Done (Some a,
                      s\<lparr>buffers := (buffers s)(a \<mapsto>
                           \<lparr>item = decode_head s,
                            pos = audio_clock (files s (file dh)),
                            frame_count = nb_samples fm,
                            format = \<lparr>sample_rate = frame_sample_rate fm,
                                      channel_layout = frame_channel_layout fm,
                                      sample_fmt = frame_format fm\<rparr>,
                            buf_size = frame_size lib fm,
                            frame = fr,
                            ref_count = 0\<rparr>)\<rparr>))))"

text \<open>
  \<^verbatim>\<open>audio_decode_frame\<close>, lines 210 to 220: the buffer goes into the queue of every
  sink of the stack, with one \<^verbatim>\<open>groove_buffer_ref\<close> for each put that succeeded.
\<close>

fun audio_decode_frame_stack :: "ptr \<Rightarrow> nat list \<Rightarrow> GroovePlaylist \<Rightarrow> GroovePlaylist outcome" where
  "audio_decode_frame_stack buffer [] s = Done s"
| "audio_decode_frame_stack buffer (sink # rest) s =
     and_then (groove_queue_put sink buffer s) (\<lambda>(r, s1).
       and_then (if r < 0 then Done s1 else groove_buffer_ref buffer s1)
         (audio_decode_frame_stack buffer rest))"

text \<open>Lines 210 to 223: the same, followed by the closing ref and unref.\<close>

definition audio_decode_frame_fan_out ::
  "ptr \<Rightarrow> nat list \<Rightarrow> GroovePlaylist \<Rightarrow> GroovePlaylist outcome" where
  "audio_decode_frame_fan_out buffer stack s =
     and_then (audio_decode_frame_stack buffer stack s) (\<lambda>s1.
       and_then (groove_buffer_ref buffer s1) (groove_buffer_unref buffer))"

subsection \<open>The decode worker\<close>

text \<open>
  One pass through the loop of \<^verbatim>\<open>decode_thread\<close>. \<open>decode_one_frame\<close> reads and
  decodes through the codec library, whose answers differ from call to call; the pass
  takes it as a parameter (the function itself follows below), and the multiplication of
  doubles as well. The result lists what the pass did.
\<close>

definition decode_thread_pass ::
  "(nat \<Rightarrow> GroovePlaylist \<Rightarrow> (int \<times> GroovePlaylist) outcome) \<Rightarrow> (double \<Rightarrow> double \<Rightarrow> double) \<Rightarrow>
   GroovePlaylist \<Rightarrow> (action list \<times> GroovePlaylist) outcome" where
  "decode_thread_pass decode_one_frame fmul s =
     (if decode_head s = None then
        and_then
          (if sent_end_of_q s = 0
           then and_then (every_sink_signal_end s) (\<lambda>s1. Done (s1\<lparr>sent_end_of_q := 1\<rparr>))
           else Done s)
          (\<lambda>s2. Done ([SDL_Delay NOOP_DELAY], s2))
      else
        let s1 = s\<lparr>sent_end_of_q := 0\<rparr> in
        and_then (every_sink_full s1) (\<lambda>(full, s2).
          if full \<noteq> 0 then Done ([SDL_Delay NOOP_DELAY], s2)
          else
            and_then (deref (items s2) (decode_head s2)) (\<lambda>dh.
              let fl = file dh;
                  s3 = s2\<lparr>p_volume := fmul (gain dh) (volume s2)\<rparr>
              in and_then (decode_one_frame fl s3) (\<lambda>(r, s4).
                   if r < 0 then
                     and_then (deref (items s4) (decode_head s4)) (\<lambda>dh4.
                       let s5 = s4\<lparr>decode_head := next dh4\<rparr> in
                       if decode_head s5 \<noteq> None then
                         and_then (deref (items s5) (decode_head s5)) (\<lambda>nx.
                           Done ([Decode_one_frame fl],
                                 upd_file (file nx) (\<lambda>f. f\<lparr>seek_pos := 0, seek_flush := 0\<rparr>) s5))
                       else Done ([Decode_one_frame fl], s5))
                   else Done ([Decode_one_frame fl], s4)))))"

text \<open>
  The first \<open>n\<close> passes of \<^verbatim>\<open>decode_thread\<close>: the loop runs while
  \<^verbatim>\<open>abort_request\<close> is clear.
\<close>

fun decode_thread ::
  "(nat \<Rightarrow> GroovePlaylist \<Rightarrow> (int \<times> GroovePlaylist) outcome) \<Rightarrow> (double \<Rightarrow> double \<Rightarrow> double) \<Rightarrow>
   nat \<Rightarrow> GroovePlaylist \<Rightarrow> (action list \<times> GroovePlaylist) outcome" where
  "decode_thread decode_one_frame fmul 0 s = Done ([], s)"
| "decode_thread decode_one_frame fmul (Suc n) s =
     (if abort_request s \<noteq> 0 then Done ([], s)
      else and_then (decode_thread_pass decode_one_frame fmul s) (\<lambda>(acts, s1).
             and_then (decode_thread decode_one_frame fmul n s1) (\<lambda>(acts', s2).
               Done (acts @ acts', s2))))"

text \<open>
  The loop of \<^verbatim>\<open>decode_thread\<close> among other threads. Each turn is one pass together
  with the \<^verbatim>\<open>decode_one_frame\<close> it would call (the answers of the libraries differ
  from pass to pass) and with what the other threads do before the worker takes
  \<^verbatim>\<open>decode_head_mutex\<close> again.
\<close>

type_synonym step = "GroovePlaylist \<Rightarrow> GroovePlaylist outcome"




subsection \<open>Decoding one frame\<close>

text \<open>
  The arithmetic of doubles that the engine uses, as parameters: product, quotient and
  sum, the conversion of an integer to a double and of a double to \<^verbatim>\<open>int64_t\<close>.
\<close>

record double_ops =
  d_mul :: "double \<Rightarrow> double \<Rightarrow> double"
  d_div :: "double \<Rightarrow> double \<Rightarrow> double"
  d_add :: "double \<Rightarrow> double \<Rightarrow> double"
  d_of_int :: "int \<Rightarrow> double"
  d_to_int64 :: "double \<Rightarrow> int"

definition av_q2d :: "double_ops \<Rightarrow> int \<Rightarrow> int \<Rightarrow> double" where
  "av_q2d fp num den = d_div fp (d_of_int fp num) (d_of_int fp den)"

text \<open>
  The fields of an \<^verbatim>\<open>AVPacket\<close> that the engine reads: \<open>pkt_data\<close> is the address of
  the data (0 for NULL), \<open>pkt_pts\<close> is \<open>None\<close> for \<^verbatim>\<open>AV_NOPTS_VALUE\<close>.
\<close>

record AVPacket =
  pkt_data :: nat
  pkt_size :: int
  pkt_pts :: "int option"
  pkt_stream_index :: int

text \<open>
  What libavfilter and the allocator answer in one round of the loop that empties an
  output port (lines 198 to 224): the frame \<^verbatim>\<open>av_frame_alloc\<close> returns (NULL when
  it fails), the return value of \<^verbatim>\<open>av_buffersink_get_frame\<close> and what the frame
  holds after that call, and the results of the two \<^verbatim>\<open>av_mallocz\<close> and of
  \<^verbatim>\<open>SDL_CreateMutex\<close> in \<^verbatim>\<open>frame_to_groove_buffer\<close>.
\<close>

record filtered_answer =
  oframe :: ptr
  get_err :: int
  filtered_frame :: AVFrame
  buffer_alloc :: ptr
  b_alloc :: bool
  mutex_alloc :: bool

text \<open>
  What the libraries answer during one call of \<^verbatim>\<open>decode_one_frame\<close>, as parameters:
  the two error codes the code compares with, the return values of
  \<^verbatim>\<open>av_seek_frame\<close> and \<^verbatim>\<open>av_read_frame\<close> and the packet read, the return value
  and \<^verbatim>\<open>got_frame\<close> of every call of \<^verbatim>\<open>avcodec_decode_audio4\<close> in order, the
  return value of \<^verbatim>\<open>av_buffersrc_write_frame\<close>, and for every class of the sink map
  (by position) the rounds of its output port in order. A call for which the list holds
  no further answer does not return.
\<close>

record decode_answers =
  AVERROR_EOF :: int
  AVERROR_EAGAIN :: int
  seek_err :: int
  read_err :: int
  read_pkt :: AVPacket
  decoded :: "(int \<times> int) list"
  write_err :: int
  filtered :: "nat \<Rightarrow> filtered_answer list"

text \<open>
  \<^verbatim>\<open>audio_decode_frame\<close>, lines 197 to 224: the loop that empties the output port of
  one class. On \<^verbatim>\<open>AVERROR_EOF\<close> and \<^verbatim>\<open>AVERROR(EAGAIN)\<close> the loop ends, on another
  negative value the function returns -1; in both cases the frame allocated in that round
  stays allocated. Otherwise \<^verbatim>\<open>av_buffersink_get_frame\<close> has written the frame
  through the pointer it was given, and \<^verbatim>\<open>frame_to_groove_buffer\<close> reads it. The
  result is the error code (negative when the function returns -1), \<^verbatim>\<open>data_size\<close>
  and the state.
\<close>

fun audio_decode_frame_frames ::
  "libavutil \<Rightarrow> decode_answers \<Rightarrow> nat list \<Rightarrow> filtered_answer list \<Rightarrow> int \<Rightarrow> GroovePlaylist \<Rightarrow>
   (int \<times> int \<times> GroovePlaylist) outcome" where
  "audio_decode_frame_frames lib ans stack [] data_size s = Blocked"
| "audio_decode_frame_frames lib ans stack (a # rest) data_size s =
     (let s1 = (case oframe a of
                  None \<Rightarrow> s
                | Some fr \<Rightarrow> s\<lparr>frames := (frames s)(fr \<mapsto> filtered_frame a)\<rparr>)
      in if get_err a = AVERROR_EOF ans \<or> get_err a = AVERROR_EAGAIN ans
         then Done (0, data_size, s1)
         else if get_err a < 0 then Done (- 1, data_size, s1)
         else
           (case oframe a of
              None \<Rightarrow> Fault NullDeref
            | Some fr \<Rightarrow>
                and_then
                  (frame_to_groove_buffer lib (buffer_alloc a) (b_alloc a) (mutex_alloc a) fr s1)
                  (\<lambda>(buffer, s2).
                     if buffer = None then Done (- 1, data_size, s2)
                     else
                       and_then (deref (buffers s2) buffer) (\<lambda>bf.
                         and_then (audio_decode_frame_fan_out buffer stack s2)
                           (audio_decode_frame_frames lib ans stack rest
                              (int_add data_size (buf_size bf)))))))"

text \<open>
  Lines 192 to 230: the loop over the classes of the sink map, with the position of the
  class, \<^verbatim>\<open>max_data_size\<close> and \<^verbatim>\<open>clock_adjustment\<close>. The first sink of the stack is
  the example sink.
\<close>

fun audio_decode_frame_classes ::
  "double_ops \<Rightarrow> libavutil \<Rightarrow> decode_answers \<Rightarrow> nat \<Rightarrow> SinkMap list \<Rightarrow> int \<Rightarrow> double \<Rightarrow>
   GroovePlaylist \<Rightarrow> (int \<times> int \<times> double \<times> GroovePlaylist) outcome" where
  "audio_decode_frame_classes fp lib ans i [] max_data_size clock_adjustment s =
     Done (0, max_data_size, clock_adjustment, s)"
| "audio_decode_frame_classes fp lib ans i (map_item # rest) max_data_size clock_adjustment s =
     (case stack_head map_item of
        [] \<Rightarrow> Fault NullDeref
      | example_sink # others \<Rightarrow>
          and_then
            (audio_decode_frame_frames lib ans (stack_head map_item) (filtered ans i) 0 s)
            (\<lambda>(r, data_size, s1).
               if r < 0 then Done (- 1, max_data_size, clock_adjustment, s1)
               else if data_size > max_data_size
               then audio_decode_frame_classes fp lib ans (i + 1) rest data_size
                      (d_div fp (d_of_int fp data_size)
                         (d_of_int fp (bytes_per_sec (sinks s1 example_sink)))) s1
               else audio_decode_frame_classes fp lib ans (i + 1) rest max_data_size
                      clock_adjustment s1))"

text \<open>
  Lines 159 to 237: the loop over the frames of the packet. \<open>pkt\<close> is the packet of the
  file, \<open>pkt_temp\<close> the copy that the loop consumes. The loop returns in the round in
  which the decoder produced a frame.
\<close>

fun audio_decode_frame_loop ::
  "double_ops \<Rightarrow> libavutil \<Rightarrow> decode_answers \<Rightarrow> nat \<Rightarrow> AVPacket \<Rightarrow> (int \<times> int) list \<Rightarrow>
   AVPacket \<Rightarrow> bool \<Rightarrow> GroovePlaylist \<Rightarrow> (int \<times> GroovePlaylist) outcome" where
  "audio_decode_frame_loop fp lib ans fl pkt [] pkt_temp new_packet s =
     (if pkt_size pkt_temp > 0 \<or> (pkt_data pkt_temp = 0 \<and> new_packet) then Blocked
      else Done (0, s))"
| "audio_decode_frame_loop fp lib ans fl pkt ((len1, got_frame) # rest) pkt_temp new_packet s =
     (if pkt_size pkt_temp > 0 \<or> (pkt_data pkt_temp = 0 \<and> new_packet) then
        if len1 < 0 then Done (- 1, s)
        else
          let pkt_temp1 = pkt_temp\<lparr>pkt_data := pkt_data pkt_temp + nat len1,
                                   pkt_size := int_add (pkt_size pkt_temp) (- len1)\<rparr>
          in if got_frame = 0 then
               (if pkt_data pkt_temp1 = 0 \<and> cap_delay (files s fl) then Done (0, s)
                else audio_decode_frame_loop fp lib ans fl pkt rest pkt_temp1 False s)
             else if write_err ans < 0 then Done (- 1, s)
             else
               and_then
                 (audio_decode_frame_classes fp lib ans 0 (sink_map s) 0 (Fin 0) s)
                 (\<lambda>(r, max_data_size, clock_adjustment, s1).
                    if r < 0 then Done (- 1, s1)
                    else if pkt_pts pkt = None
                    then Done (max_data_size,
                           upd_file fl (\<lambda>f. f\<lparr>audio_clock :=
                             d_add fp (audio_clock f) clock_adjustment\<rparr>) s1)
                    else Done (max_data_size, s1))
      else Done (0, s))"

text \<open>
  \<^verbatim>\<open>audio_decode_frame\<close>: the audio clock follows the time stamp of the packet when it
  has one; then the loop.
\<close>

definition audio_decode_frame ::
  "double_ops \<Rightarrow> libavutil \<Rightarrow> decode_answers \<Rightarrow> nat \<Rightarrow> AVPacket \<Rightarrow> GroovePlaylist \<Rightarrow>
   (int \<times> GroovePlaylist) outcome" where
  "audio_decode_frame fp lib ans fl pkt s =
     (let s1 = (case pkt_pts pkt of
                  None \<Rightarrow> s
                | Some pts \<Rightarrow>
                    upd_file fl (\<lambda>f. f\<lparr>audio_clock :=
                      d_mul fp (av_q2d fp (time_base_num f) (time_base_den f))
                        (d_of_int fp pts)\<rparr>) s)
      in audio_decode_frame_loop fp lib ans fl pkt (decoded ans) pkt True s1)"

text \<open>
  \<^verbatim>\<open>decode_one_frame\<close>, lines 484 to 496: a pending seek. The sinks are flushed when
  the seek succeeded and asks for it.
\<close>

definition decode_one_frame_seek ::
  "decode_answers \<Rightarrow> nat \<Rightarrow> GroovePlaylist \<Rightarrow> GroovePlaylist outcome" where
  "decode_one_frame_seek ans fl s =
     (if seek_pos (files s fl) \<ge> 0 then
        and_then
          (if seek_err ans < 0 then Done s
           else if seek_flush (files s fl) \<noteq> 0 then every_sink_flush s
           else Done s)
          (\<lambda>s1. Done (upd_file fl (\<lambda>f. f\<lparr>seek_pos := - 1, eof := 0\<rparr>) s1))
      else Done s)"

text \<open>
  \<^verbatim>\<open>decode_one_frame\<close>. At the end of the file a codec with delay is flushed with an
  empty packet. The calls of libavformat and libavcodec that return nothing the code
  uses (\<^verbatim>\<open>av_read_pause\<close>, \<^verbatim>\<open>av_read_play\<close>, \<^verbatim>\<open>avcodec_flush_buffers\<close>,
  \<^verbatim>\<open>av_free_packet\<close>) act on the library only.
\<close>

definition decode_one_frame ::
  "double_ops \<Rightarrow> libavutil \<Rightarrow> avfilter_results \<Rightarrow> decode_answers \<Rightarrow> nat \<Rightarrow> GroovePlaylist \<Rightarrow>
   (int \<times> GroovePlaylist) outcome" where
  "decode_one_frame fp lib av ans fl s =
     and_then (maybe_init_filter_graph av fl s) (\<lambda>(r, s1).
       if r < 0 then Done (- 1, s1)
       else if f_abort_request (files s1 fl) \<noteq> 0 then Done (- 1, s1)
       else
         let s2 = (if paused s1 \<noteq> last_paused s1 then s1\<lparr>last_paused := paused s1\<rparr> else s1)
         in and_then (decode_one_frame_seek ans fl s2) (\<lambda>s3.
              if eof (files s3 fl) \<noteq> 0 then
                (if cap_delay (files s3 fl) then
                   and_then
                     (audio_decode_frame fp lib ans fl
                        \<lparr>pkt_data = 0, pkt_size = 0, pkt_pts = None,
                         pkt_stream_index = audio_stream_index (files s3 fl)\<rparr> s3)
                     (\<lambda>(n, s4). if n > 0 then Done (0, s4) else Done (- 1, s4))
                 else Done (- 1, s3))
              else if read_err ans < 0 then Done (0, upd_file fl (\<lambda>f. f\<lparr>eof := 1\<rparr>) s3)
              else if pkt_stream_index (read_pkt ans) \<noteq> audio_stream_index (files s3 fl)
              then Done (0, s3)
              else
                and_then (audio_decode_frame fp lib ans fl (read_pkt ans) s3)
                  (\<lambda>(n, s4). Done (0, s4))))"



subsection \<open>Example states\<close>

text \<open>
  A sink as \<^verbatim>\<open>groove_sink_create\<close> returns it (zeroed, \<^verbatim>\<open>buffer_size\<close> 8192, an empty
  queue), with a format chosen by its owner; an opened file; a playlist as
  \<^verbatim>\<open>groove_playlist_create\<close> returns it (zeroed, both volumes 1.0); the two functions of
  libavutil on the formats used; what \<^verbatim>\<open>snprintf\<close> writes for the volumes that the
  examples format (a NaN, 0.0 and 0.5; no example reaches the last line); a libavfilter
  whose every call succeeds.
\<close>

definition sink_example :: GrooveSink where
  "sink_example =
     \<lparr>audio_format = \<lparr>sample_rate = 44100, channel_layout = 3, sample_fmt = 1\<rparr>,
      buffer_size = 8192, bytes_per_sec = 0, playlist = None, flush = False, purge = False,
      audioq = \<lparr>entries = [], q_abort_request = False\<rparr>,
      audioq_buf_count = 0, audioq_size = 0, min_audioq_size = 0\<rparr>"

definition file_example :: GrooveFile where
  "file_example =
     \<lparr>f_abort_request = 0, seek_pos = - 1, seek_flush = 0, eof = 0, audio_clock = Fin 0,
      codec_sample_rate = 48000, codec_channel_layout = 3, codec_sample_fmt = 3,
      time_base_num = 1, time_base_den = 48000, audio_stream_index = 0, cap_delay = False,
      start_time = None\<rparr>"

definition playlist_created :: GroovePlaylist where
  "playlist_created =
     \<lparr>head = None, tail = None, volume = Fin 1, abort_request = 0, paused = 0,
      last_paused = 0, in_sample_rate = 0, in_channel_layout = 0, in_sample_fmt = 0,
      in_time_base_num = 0, in_time_base_den = 0, filter_graph = None, abuffer_ctx = None,
      volume_ctx = None, asplit_ctx = None, decode_head = None, p_volume = Fin 1,
      rebuild_filter_graph_flag = 0, sink_map = [], sink_map_count = 0,
      filter_volume = Fin 0, sent_end_of_q = 0, purge_item = None,
      items = Map.empty, buffers = Map.empty, frames = Map.empty, frames_freed = [],
      sinks = (\<lambda>k. sink_example), files = (\<lambda>k. file_example), hook_calls = []\<rparr>"

definition lib_example :: libavutil where
  "lib_example =
     \<lparr>av_get_channel_layout_nb_channels = (\<lambda>l. if l = 3 then 2 else 1),
      av_get_bytes_per_sample = (\<lambda>f. if f = 1 then 2 else 4)\<rparr>"

definition snprintf_volume_example :: "double \<Rightarrow> string" where
  "snprintf_volume_example v =
     (if v = NaN then ''volume=nan''
      else if v = Fin 0 then ''volume=0.000000''
      else if v = Fin (1 / 2) then ''volume=0.500000''
      else ''volume=0.250000'')"

definition av_ok :: avfilter_results where
  "av_ok =
     \<lparr>snprintf_volume = snprintf_volume_example, graph_alloc = True, abuffer_err = 0, volume_err = 0, volume_link_err = 0,
      asplit_err = 0, asplit_link_err = 0, aformat_err = (\<lambda>i. 0),
      aformat_link_err = (\<lambda>i. 0), abuffersink_err = (\<lambda>i. 0),
      abuffersink_link_err = (\<lambda>i. 0), config_err = 0\<rparr>"

text \<open>
  Three queues: sink 0 holds one buffer, sink 1 holds the sentinel, sink 2 holds a buffer
  and is aborted; every other sink has an empty queue.
\<close>

definition queued_example :: GroovePlaylist where
  "queued_example =
     playlist_created
       \<lparr>buffers := [7 \<mapsto> \<lparr>item = Some 1, pos = Fin 0, frame_count = 1024,
                        format = \<lparr>sample_rate = 44100, channel_layout = 3, sample_fmt = 1\<rparr>,
                        buf_size = 4096, frame = 5, ref_count = 1\<rparr>],
        sinks := (\<lambda>k. sink_example)
          (0 := sink_example\<lparr>audioq := \<lparr>entries = [Some 7], q_abort_request = False\<rparr>,
                              audioq_buf_count := 1, audioq_size := 4096\<rparr>,
           1 := sink_example\<lparr>audioq := \<lparr>entries = [None], q_abort_request = False\<rparr>\<rparr>,
           2 := sink_example\<lparr>audioq := \<lparr>entries = [Some 7], q_abort_request = True\<rparr>\<rparr>)\<rparr>"

subsection \<open>Auxiliary notions for the statements\<close>




text \<open>
  A playlist that reached its end with sinks 0 and 1 attached to one class; the same with
  one item being decoded after the end was signalled; the same with sink 1 below its
  threshold.
\<close>

definition ended_example :: GroovePlaylist where
  "ended_example =
     playlist_created
       \<lparr>sink_map := [\<lparr>stack_head = [0, 1], aformat_ctx = None, abuffersink_ctx = None\<rparr>],
        sink_map_count := 1\<rparr>"

definition waiting_example :: GroovePlaylist where
  "waiting_example =
     ended_example
       \<lparr>head := Some 1, tail := Some 1, decode_head := Some 1, sent_end_of_q := 1,
        items := [1 \<mapsto> \<lparr>file = 0, gain = Fin 1, prev = None, next = None\<rparr>]\<rparr>"

definition hungry_example :: GroovePlaylist where
  "hungry_example =
     waiting_example\<lparr>sinks := (sinks waiting_example)(1 := sink_example\<lparr>min_audioq_size := 32768\<rparr>)\<rparr>"

text \<open>
  The playlist after the first build of its filter graph for file 0; the same after sink 0
  was attached; the same after sink 0 was detached again.
\<close>

definition built_example :: GroovePlaylist where
  "built_example =
     playlist_created
       \<lparr>in_sample_rate := 48000, in_channel_layout := 3, in_sample_fmt := 3,
        in_time_base_num := 1, in_time_base_den := 48000,
        filter_graph := Some \<lparr>nodes = [Abuffer 1 48000 48000 3 3], links = [], configured = True\<rparr>,
        abuffer_ctx := Some 0, filter_volume := Fin 1\<rparr>"

definition attached_example :: GroovePlaylist where
  "attached_example =
     built_example
       \<lparr>sink_map := [\<lparr>stack_head = [0], aformat_ctx = None, abuffersink_ctx = None\<rparr>],
        sink_map_count := 1,
        sinks := (sinks built_example)
          (0 := sink_example\<lparr>bytes_per_sec := 176400, min_audioq_size := 32768,
                              playlist := Some ()\<rparr>)\<rparr>"

definition detached_example :: GroovePlaylist where
  "detached_example =
     built_example
       \<lparr>sinks := (sinks built_example)
          (0 := sink_example\<lparr>bytes_per_sec := 176400, min_audioq_size := 32768,
                              audioq := \<lparr>entries = [], q_abort_request = True\<rparr>\<rparr>)\<rparr>"

text \<open>
  The invariant of the doubly-linked list of items: the head has no \<open>prev\<close>, the tail
  has no \<open>next\<close>, and for all items \<open>a\<close> and \<open>b\<close>, \<open>a.next = b\<close> exactly when
  \<open>b.prev = a\<close>.
\<close>

definition links_consistent :: "GroovePlaylist \<Rightarrow> bool" where
  "links_consistent s =
     ((case head s of
         None \<Rightarrow> True
       | Some h \<Rightarrow> (case items s h of None \<Rightarrow> False | Some i \<Rightarrow> prev i = None)) \<and>
      (case tail s of
         None \<Rightarrow> True
       | Some t \<Rightarrow> (case items s t of None \<Rightarrow> False | Some i \<Rightarrow> next i = None)) \<and>
      (\<forall>a\<in>dom (items s). \<forall>b\<in>dom (items s).
         (map_option next (items s a) = Some (Some b)) =
         (map_option prev (items s b) = Some (Some a))))"

text \<open>
  No item points to an address that holds no item: every \<open>prev\<close> and \<open>next\<close> of an
  item of the playlist is NULL or the address of an item of the playlist.
\<close>

definition links_closed :: "GroovePlaylist \<Rightarrow> bool" where
  "links_closed s =
     (\<forall>a\<in>dom (items s). \<forall>b.
        (map_option prev (items s a) = Some (Some b) \<or>
         map_option next (items s a) = Some (Some b)) \<longrightarrow> b \<in> dom (items s))"

text \<open>
  A playlist of one item (at address 11) as an insert into the empty playlist leaves it;
  the same after a second item (at 12) was inserted before the first; the same after a
  third item (at 13) was inserted before the first.
\<close>

definition one_item_example :: GroovePlaylist where
  "one_item_example =
     playlist_created
       \<lparr>head := Some 11, tail := Some 11, decode_head := Some 11,
        items := [11 \<mapsto> \<lparr>file = 0, gain = Fin 1, prev = None, next = None\<rparr>],
        files := (files playlist_created)(0 := file_example\<lparr>seek_pos := 0, seek_flush := 0\<rparr>)\<rparr>"

definition before_head_example :: GroovePlaylist where
  "before_head_example =
     one_item_example
       \<lparr>head := Some 12,
        items := [11 \<mapsto> \<lparr>file = 0, gain = Fin 1, prev = None, next = None\<rparr>,
                  12 \<mapsto> \<lparr>file = 0, gain = Fin 1, prev = None, next = Some 11\<rparr>]\<rparr>"

definition lost_item_example :: GroovePlaylist where
  "lost_item_example =
     before_head_example
       \<lparr>head := Some 13,
        items := [11 \<mapsto> \<lparr>file = 0, gain = Fin 1, prev = None, next = None\<rparr>,
                  12 \<mapsto> \<lparr>file = 0, gain = Fin 1, prev = None, next = Some 11\<rparr>,
                  13 \<mapsto> \<lparr>file = 0, gain = Fin 1, prev = None, next = Some 11\<rparr>]\<rparr>"

text \<open>
  The number of sinks of a stack whose queue takes a put (with repetition), and
  \<^verbatim>\<open>groove_buffer_unref\<close> called a number of times in a row.
\<close>

definition accepting :: "GroovePlaylist \<Rightarrow> nat list \<Rightarrow> nat" where
  "accepting s stack = length (filter (\<lambda>k. \<not> q_abort_request (audioq (sinks s k))) stack)"

fun unref_times :: "nat \<Rightarrow> ptr \<Rightarrow> GroovePlaylist \<Rightarrow> GroovePlaylist outcome" where
  "unref_times 0 buffer s = Done s"
| "unref_times (Suc n) buffer s = and_then (groove_buffer_unref buffer s) (unref_times n buffer)"

text \<open>
  A filtered frame (at address 5), the buffer \<^verbatim>\<open>frame_to_groove_buffer\<close> makes of it,
  and three states: the item at address 1 is being decoded, sinks 0 and 1 take buffers and
  the queue of sink 2 is aborted; the same with the new buffer at address 7; the same
  with that buffer held by two queues.
\<close>

definition frame_example :: AVFrame where
  "frame_example =
     \<lparr>nb_samples = 1024, frame_channel_layout = 3, frame_format = 1, frame_sample_rate = 44100\<rparr>"

definition buffer_example :: GrooveBuffer where
  "buffer_example =
     \<lparr>item = Some 1, pos = Fin 0, frame_count = 1024,
      format = \<lparr>sample_rate = 44100, channel_layout = 3, sample_fmt = 1\<rparr>,
      buf_size = 4096, frame = 5, ref_count = 0\<rparr>"

definition harvest_example :: GroovePlaylist where
  "harvest_example =
     waiting_example
       \<lparr>frames := [5 \<mapsto> frame_example],
        sinks := (sinks waiting_example)
          (2 := sink_example\<lparr>audioq := \<lparr>entries = [], q_abort_request = True\<rparr>\<rparr>)\<rparr>"

definition harvested_example :: GroovePlaylist where
  "harvested_example = harvest_example\<lparr>buffers := [7 \<mapsto> buffer_example]\<rparr>"

definition shared_example :: GroovePlaylist where
  "shared_example = harvest_example\<lparr>buffers := [7 \<mapsto> buffer_example\<lparr>ref_count := 2\<rparr>]\<rparr>"

text \<open>
  Three more states of that buffer: in the queue of sink 0 with one reference; taken out
  of the queue by the consumer of sink 0; freed together with its frame.
\<close>

definition put_example :: GroovePlaylist where
  "put_example =
     harvested_example
       \<lparr>buffers := [7 \<mapsto> buffer_example\<lparr>ref_count := 1\<rparr>],
        sinks := (sinks harvested_example)
          (0 := sink_example\<lparr>audioq := \<lparr>entries = [Some 7], q_abort_request = False\<rparr>,
                              audioq_buf_count := 1, audioq_size := 4096\<rparr>)\<rparr>"

definition got_example :: GroovePlaylist where
  "got_example =
     harvested_example\<lparr>buffers := [7 \<mapsto> buffer_example\<lparr>ref_count := 1\<rparr>]\<rparr>"

definition freed_example :: GroovePlaylist where
  "freed_example =
     harvested_example\<lparr>frames := Map.empty, frames_freed := [5], buffers := Map.empty\<rparr>"

text \<open>
  Clamping to the interval from 0.0 to 1.0 (a NaN compares false and stays), and the
  texts given to the volume filters of a graph, in the order of their creation.
\<close>

definition clamp01 :: "double \<Rightarrow> double" where
  "clamp01 v = (if dless v (Fin 0) then Fin 0 else if dless (Fin 1) v then Fin 1 else v)"

fun volume_args :: "AVFilter list \<Rightarrow> string list" where
  "volume_args [] = []"
| "volume_args (Volume v # fs) = v # volume_args fs"
| "volume_args (f # fs) = volume_args fs"

text \<open>
  What the volume stage establishes for the volume \<open>p\<close>: the graph holds no volume
  filter when the clamped value is 1.0 or libavfilter refused to create one, and
  otherwise exactly one, with the text of the clamped value, to which the context points.
\<close>

definition volume_built :: "avfilter_results \<Rightarrow> double \<Rightarrow> AVFilterGraph \<Rightarrow> ptr \<Rightarrow> bool" where
  "volume_built av p g vctx =
     (volume_args (nodes g) =
        (if deq (clamp01 p) (Fin 1) \<or> volume_err av < 0 then []
         else [snprintf_volume av (clamp01 p)]) \<and>
      (deq (clamp01 p) (Fin 1) \<longrightarrow> vctx = None) \<and>
      (\<not> deq (clamp01 p) (Fin 1) \<and> 0 \<le> volume_err av \<longrightarrow>
         (\<exists>i. vctx = Some i \<and> i < length (nodes g) \<and> nodes g ! i = Volume (snprintf_volume av (clamp01 p)))))"

text \<open>
  The graph and the state of \<^verbatim>\<open>init_filter_graph\<close> once the source filter of the file
  exists (line 285).
\<close>

definition abuffer_graph :: "GrooveFile \<Rightarrow> AVFilterGraph" where
  "abuffer_graph f =
     \<lparr>nodes = [Abuffer (time_base_num f) (time_base_den f) (codec_sample_rate f)
                 (codec_sample_fmt f) (codec_channel_layout f)],
      links = [], configured = False\<rparr>"

definition abuffer_state :: "nat \<Rightarrow> GroovePlaylist \<Rightarrow> GroovePlaylist" where
  "abuffer_state fl s =
     s\<lparr>filter_graph := None,
       in_sample_rate := codec_sample_rate (files s fl),
       in_channel_layout := codec_channel_layout (files s fl),
       in_sample_fmt := codec_sample_fmt (files s fl),
       in_time_base_num := time_base_num (files s fl),
       in_time_base_den := time_base_den (files s fl),
       abuffer_ctx := Some 0, filter_graph := Some (abuffer_graph (files s fl))\<rparr>"

text \<open>
  The playlist after a build with volume \<open>p\<close> that created a volume filter with
  the text \<open>v\<close>.
\<close>

definition volume_built_example :: "double \<Rightarrow> string \<Rightarrow> GroovePlaylist" where
  "volume_built_example p v =
     built_example
       \<lparr>p_volume := p, filter_volume := p, volume_ctx := Some 1,
        filter_graph := Some \<lparr>nodes = [Abuffer 1 48000 48000 3 3, Volume v],
                                links = [(Some 0, 0, Some 1, 0)], configured = True\<rparr>\<rparr>"



















section \<open>Properties\<close>

subsection \<open>The three answers of \<^verbatim>\<open>groove_sink_get_buffer\<close>\<close>

text \<open>
  Claim C8. \<^verbatim>\<open>groove_sink_get_buffer\<close> answers YES with the dequeued buffer when the
  queue yields a buffer that is not the sentinel (the queue loses the entry and the
  counters go down); END with no buffer when the dequeued value is the sentinel; NO with
  no buffer whenever the get of the queue returns something other than 1, as it does for
  a non-blocking call on an empty queue and on an aborted queue.
\<close>

theorem groove_sink_get_buffer_tristate:
  "(\<not> q_abort_request (audioq (sinks s sink)) \<and>
    entries (audioq (sinks s sink)) = Some b # rest \<and> buffers s b = Some bf \<longrightarrow>
      groove_sink_get_buffer sink buffer block s =
        Done (GROOVE_BUFFER_YES, Some b,
          upd_sink sink (\<lambda>k. k\<lparr>audioq := (audioq k)\<lparr>entries := rest\<rparr>,
                                 audioq_buf_count := audioq_buf_count k - 1,
                                 audioq_size := audioq_size k - buf_size bf\<rparr>) s)) \<and>
   (\<not> q_abort_request (audioq (sinks s sink)) \<and>
    entries (audioq (sinks s sink)) = end_of_q_sentinel # rest \<longrightarrow>
      groove_sink_get_buffer sink buffer block s =
        Done (GROOVE_BUFFER_END, None,
          upd_sink sink (\<lambda>k. k\<lparr>audioq := (audioq k)\<lparr>entries := rest\<rparr>\<rparr>) s)) \<and>
   (groove_queue_get sink block s = Done (r, w, s') \<and> r \<noteq> 1 \<longrightarrow>
      groove_sink_get_buffer sink buffer block s = Done (GROOVE_BUFFER_NO, None, s')) \<and>
   (entries (audioq (sinks s sink)) = [] \<longrightarrow>
      groove_sink_get_buffer sink buffer False s = Done (GROOVE_BUFFER_NO, None, s)) \<and>
   (q_abort_request (audioq (sinks s sink)) \<longrightarrow>
      groove_sink_get_buffer sink buffer block s = Done (GROOVE_BUFFER_NO, None, s))"
  by (simp add: groove_sink_get_buffer_def groove_queue_get_def audioq_get_def
      end_of_q_sentinel_def deref_def Let_def upd_sink_def)

theorem groove_sink_get_buffer_tristate_witness:
  "groove_sink_get_buffer 0 None True queued_example =
     Done (GROOVE_BUFFER_YES, Some 7,
       upd_sink 0 (\<lambda>k. k\<lparr>audioq := (audioq k)\<lparr>entries := []\<rparr>,
                          audioq_buf_count := audioq_buf_count k - 1,
                          audioq_size := audioq_size k - 4096\<rparr>) queued_example) \<and>
   groove_sink_get_buffer 1 (Some 7) True queued_example =
     Done (GROOVE_BUFFER_END, None,
       upd_sink 1 (\<lambda>k. k\<lparr>audioq := (audioq k)\<lparr>entries := []\<rparr>\<rparr>) queued_example) \<and>
   groove_queue_get 3 False queued_example = Done (0, None, queued_example) \<and>
   groove_sink_get_buffer 3 (Some 7) False queued_example =
     Done (GROOVE_BUFFER_NO, None, queued_example) \<and>
   groove_sink_get_buffer 2 (Some 7) True queued_example =
     Done (GROOVE_BUFFER_NO, None, queued_example)"
proof -
  have q0: "\<not> q_abort_request (audioq (sinks queued_example 0))"
    "entries (audioq (sinks queued_example 0)) = Some 7 # []"
    "\<exists>bf. buffers queued_example 7 = Some bf \<and> buf_size bf = 4096"
    by (simp_all add: queued_example_def sink_example_def playlist_created_def)
  have q1: "\<not> q_abort_request (audioq (sinks queued_example 1))"
    "entries (audioq (sinks queued_example 1)) = end_of_q_sentinel # []"
    by (simp_all add: queued_example_def sink_example_def end_of_q_sentinel_def)
  have q2: "q_abort_request (audioq (sinks queued_example 2))"
    by (simp add: queued_example_def)
  have q3: "entries (audioq (sinks queued_example 3)) = []"
    "groove_queue_get 3 False queued_example = Done (0, None, queued_example)"
    by (simp_all add: queued_example_def sink_example_def groove_queue_get_def)
  from q0 obtain bf where bf: "buffers queued_example 7 = Some bf" "buf_size bf = 4096"
    by blast
  show ?thesis
    using groove_sink_get_buffer_tristate [of queued_example 0 7 "[]" bf None True 0 None queued_example]
      groove_sink_get_buffer_tristate [of queued_example 1 7 "[]" bf "Some 7" True 0 None queued_example]
      groove_sink_get_buffer_tristate [of queued_example 3 7 "[]" bf "Some 7" False 0 None queued_example]
      groove_sink_get_buffer_tristate [of queued_example 2 7 "[]" bf "Some 7" True 0 None queued_example]
      q0(1,2) q1 q2 q3 bf
    by simp
qed

subsection \<open>Results of the monad and of reading memory\<close>

lemma and_then_Done_iff:
  "(and_then r f = Done y) = (\<exists>x. r = Done x \<and> f x = Done y)"
  by (cases r) simp_all

lemma deref_Done_iff:
  "(deref h p = Done v) = (\<exists>a. p = Some a \<and> h a = Some v)"
  by (auto simp: deref_def split: option.splits)


subsection \<open>The end-of-queue sentinel\<close>

lemma upd_sink_same: "upd_sink k f s = s \<Longrightarrow> f (sinks s k) = sinks s k"
proof -
  assume a: "upd_sink k f s = s"
  have "sinks (upd_sink k f s) k = f (sinks s k)" by (simp add: upd_sink_def)
  with a show ?thesis by simp
qed

lemma audioq_put_skips_iff: "(audioq_put sink obj s = Done s) = (obj = end_of_q_sentinel)"
proof (cases obj)
  case None
  then show ?thesis by (simp add: audioq_put_def end_of_q_sentinel_def)
next
  case (Some b)
  show ?thesis
  proof (cases "buffers s b")
    case None
    with Some show ?thesis by (simp add: audioq_put_def end_of_q_sentinel_def deref_def)
  next
    case (Some bf)
    have "upd_sink sink (\<lambda>k. k\<lparr>audioq_buf_count := audioq_buf_count k + 1,
             audioq_size := audioq_size k + buf_size bf\<rparr>) s \<noteq> s"
    proof
      assume "upd_sink sink (\<lambda>k. k\<lparr>audioq_buf_count := audioq_buf_count k + 1,
             audioq_size := audioq_size k + buf_size bf\<rparr>) s = s"
      from upd_sink_same [OF this]
      have "audioq_buf_count ((sinks s sink)\<lparr>audioq_buf_count := audioq_buf_count (sinks s sink) + 1,
             audioq_size := audioq_size (sinks s sink) + buf_size bf\<rparr>) = audioq_buf_count (sinks s sink)"
        by simp
      then show False by simp
    qed
    with Some \<open>obj = Some b\<close> show ?thesis
      by (simp add: audioq_put_def end_of_q_sentinel_def deref_def)
  qed
qed

lemma audioq_get_skips_iff: "(audioq_get sink obj s = Done s) = (obj = end_of_q_sentinel)"
proof (cases obj)
  case None
  then show ?thesis by (simp add: audioq_get_def end_of_q_sentinel_def)
next
  case (Some b)
  show ?thesis
  proof (cases "buffers s b")
    case None
    with Some show ?thesis by (simp add: audioq_get_def end_of_q_sentinel_def deref_def)
  next
    case (Some bf)
    have "upd_sink sink (\<lambda>k. k\<lparr>audioq_buf_count := audioq_buf_count k - 1,
             audioq_size := audioq_size k - buf_size bf\<rparr>) s \<noteq> s"
    proof
      assume "upd_sink sink (\<lambda>k. k\<lparr>audioq_buf_count := audioq_buf_count k - 1,
             audioq_size := audioq_size k - buf_size bf\<rparr>) s = s"
      from upd_sink_same [OF this]
      have "audioq_buf_count ((sinks s sink)\<lparr>audioq_buf_count := audioq_buf_count (sinks s sink) - 1,
             audioq_size := audioq_size (sinks s sink) - buf_size bf\<rparr>) = audioq_buf_count (sinks s sink)"
        by simp
      then show False by simp
    qed
    with Some \<open>obj = Some b\<close> show ?thesis
      by (simp add: audioq_get_def end_of_q_sentinel_def deref_def)
  qed
qed

lemma groove_buffer_unref_sinks:
  "groove_buffer_unref obj s = Done s' \<Longrightarrow> sinks s' = sinks s"
  by (auto simp: groove_buffer_unref_def Let_def split: option.splits if_splits)

lemma audioq_cleanup_skips_iff: "(audioq_cleanup sink obj s = Done s) = (obj = end_of_q_sentinel)"
proof (cases obj)
  case None
  then show ?thesis by (simp add: audioq_cleanup_def end_of_q_sentinel_def)
next
  case (Some b)
  show ?thesis
  proof (cases "buffers s b")
    case None
    with Some show ?thesis by (simp add: audioq_cleanup_def end_of_q_sentinel_def deref_def)
  next
    case (Some bf)
    let ?s1 = "upd_sink sink (\<lambda>k. k\<lparr>audioq_buf_count := audioq_buf_count k - 1,
             audioq_size := audioq_size k - buf_size bf\<rparr>) s"
    have "groove_buffer_unref (Some b) ?s1 \<noteq> Done s"
    proof
      assume "groove_buffer_unref (Some b) ?s1 = Done s"
      from groove_buffer_unref_sinks [OF this]
      have "sinks s sink = sinks ?s1 sink" by simp
      then have "audioq_buf_count (sinks s sink) = audioq_buf_count (sinks ?s1 sink)" by simp
      then show False by (simp add: upd_sink_def)
    qed
    with Some \<open>obj = Some b\<close> show ?thesis
      by (simp add: audioq_cleanup_def end_of_q_sentinel_def deref_def)
  qed
qed

lemma sink_signal_end_puts:
  "\<not> q_abort_request (audioq (sinks s sink)) \<Longrightarrow>
   sink_signal_end sink s =
     Done (0, upd_sink sink (\<lambda>k. k\<lparr>audioq := (audioq k)\<lparr>entries := entries (audioq k) @ [end_of_q_sentinel]\<rparr>\<rparr>) s)"
  by (simp add: sink_signal_end_def groove_queue_put_def audioq_put_def Let_def upd_sink_def)

lemma get_buffer_end_iff:
  "groove_sink_get_buffer sink buffer block s = Done (code, out, s') \<Longrightarrow>
   (code = GROOVE_BUFFER_END) =
     (\<not> q_abort_request (audioq (sinks s sink)) \<and>
      (\<exists>rest. entries (audioq (sinks s sink)) = None # rest))"
  by (auto simp: groove_sink_get_buffer_def groove_queue_get_def audioq_get_def
      end_of_q_sentinel_def deref_def Let_def
      split: if_splits list.splits option.splits)









text \<open>
  Claim C10. The sentinel is the null pointer: signalling the end puts NULL into the
  queue of the sink; each of the three counter hooks leaves the state as it is exactly
  when the object is NULL; and \<^verbatim>\<open>groove_sink_get_buffer\<close> answers END exactly when the
  queue is not aborted and its first entry is NULL, whoever put it there.
\<close>

theorem end_of_q_sentinel_is_null:
  "end_of_q_sentinel = None \<and>
   (\<not> q_abort_request (audioq (sinks s sink)) \<longrightarrow>
      sink_signal_end sink s =
        Done (0, upd_sink sink (\<lambda>k. k\<lparr>audioq := (audioq k)\<lparr>entries := entries (audioq k) @ [None]\<rparr>\<rparr>) s)) \<and>
   (audioq_put sink obj s = Done s) = (obj = None) \<and>
   (audioq_get sink obj s = Done s) = (obj = None) \<and>
   (audioq_cleanup sink obj s = Done s) = (obj = None) \<and>
   (groove_sink_get_buffer sink buffer block s = Done (code, out, s') \<longrightarrow>
      (code = GROOVE_BUFFER_END) =
        (\<not> q_abort_request (audioq (sinks s sink)) \<and>
         (\<exists>rest. entries (audioq (sinks s sink)) = None # rest)))"
  using sink_signal_end_puts [of s sink] audioq_put_skips_iff [of sink obj s]
    audioq_get_skips_iff [of sink obj s] audioq_cleanup_skips_iff [of sink obj s]
    get_buffer_end_iff [of sink buffer block s code out s']
  by (simp add: end_of_q_sentinel_def)

theorem end_of_q_sentinel_is_null_witness:
  "sink_signal_end 3 queued_example =
     Done (0, upd_sink 3 (\<lambda>k. k\<lparr>audioq := (audioq k)\<lparr>entries := entries (audioq k) @ [None]\<rparr>\<rparr>)
                queued_example) \<and>
   groove_sink_get_buffer 1 (Some 7) False queued_example =
     Done (GROOVE_BUFFER_END, None,
           upd_sink 1 (\<lambda>k. k\<lparr>audioq := (audioq k)\<lparr>entries := []\<rparr>\<rparr>) queued_example) \<and>
   \<not> q_abort_request (audioq (sinks queued_example 1)) \<and>
   entries (audioq (sinks queued_example 1)) = [None] \<and>
   groove_sink_get_buffer 0 None False queued_example =
     Done (GROOVE_BUFFER_YES, Some 7,
       upd_sink 0 (\<lambda>k. k\<lparr>audioq := (audioq k)\<lparr>entries := []\<rparr>,
                          audioq_buf_count := audioq_buf_count k - 1,
                          audioq_size := audioq_size k - 4096\<rparr>) queued_example) \<and>
   entries (audioq (sinks queued_example 0)) = [Some 7]"
proof -
  have q3: "\<not> q_abort_request (audioq (sinks queued_example 3))"
    by (simp add: queued_example_def sink_example_def)
  have a: "sink_signal_end 3 queued_example =
     Done (0, upd_sink 3 (\<lambda>k. k\<lparr>audioq := (audioq k)\<lparr>entries := entries (audioq k) @ [None]\<rparr>\<rparr>)
                queued_example)"
    using end_of_q_sentinel_is_null [where s = queued_example and sink = 3,
        THEN conjunct2, THEN conjunct1] q3
    by blast
  have g1: "groove_sink_get_buffer 1 (Some 7) False queued_example =
     Done (GROOVE_BUFFER_END, None,
           upd_sink 1 (\<lambda>k. k\<lparr>audioq := (audioq k)\<lparr>entries := []\<rparr>\<rparr>) queued_example)"
    by (simp add: groove_sink_get_buffer_def groove_queue_get_def audioq_get_def
        end_of_q_sentinel_def queued_example_def Let_def upd_sink_def)
  have g0: "groove_sink_get_buffer 0 None False queued_example =
     Done (GROOVE_BUFFER_YES, Some 7,
       upd_sink 0 (\<lambda>k. k\<lparr>audioq := (audioq k)\<lparr>entries := []\<rparr>,
                          audioq_buf_count := audioq_buf_count k - 1,
                          audioq_size := audioq_size k - 4096\<rparr>) queued_example)"
    by (simp add: groove_sink_get_buffer_def groove_queue_get_def audioq_get_def
        end_of_q_sentinel_def queued_example_def Let_def upd_sink_def deref_def)
  note iff = end_of_q_sentinel_is_null [THEN conjunct2, THEN conjunct2, THEN conjunct2,
      THEN conjunct2, THEN conjunct2, rule_format]
  have b: "\<not> q_abort_request (audioq (sinks queued_example 1)) \<and>
         (\<exists>rest. entries (audioq (sinks queued_example 1)) = None # rest)"
    using iff [OF g1] by simp
  have e1: "entries (audioq (sinks queued_example 1)) = [None]"
    "entries (audioq (sinks queued_example 0)) = [Some 7]"
    by (simp_all add: queued_example_def)
  from a g1 b e1 g0 show ?thesis by blast
qed

subsection \<open>The worker and full sinks\<close>

lemma every_sink_stack_full:
  "every_sink_stack sink_is_full 1 st s =
     Done (if (\<forall>k\<in>set st. min_audioq_size (sinks s k) \<le> audioq_size (sinks s k))
           then None else Some 0, s)"
  by (induction st) (simp_all add: sink_is_full_def)

lemma every_sink_map_full:
  "every_sink_map sink_is_full 1 ms s =
     Done (if (\<forall>m\<in>set ms. \<forall>k\<in>set (stack_head m).
                 min_audioq_size (sinks s k) \<le> audioq_size (sinks s k))
           then 1 else 0, s)"
  by (induction ms) (simp_all add: every_sink_stack_full)

lemma every_sink_full_eq:
  "every_sink_full s =
     Done (if (\<forall>m\<in>set (sink_map s). \<forall>k\<in>set (stack_head m).
                 min_audioq_size (sinks s k) \<le> audioq_size (sinks s k))
           then 1 else 0, s)"
  by (simp add: every_sink_full_def every_sink_def every_sink_map_full)

lemma pass_full:
  assumes "decode_head s \<noteq> None"
    and "\<forall>m\<in>set (sink_map s). \<forall>k\<in>set (stack_head m).
                 min_audioq_size (sinks s k) \<le> audioq_size (sinks s k)"
  shows "decode_thread_pass dof fmul s = Done ([SDL_Delay NOOP_DELAY], s\<lparr>sent_end_of_q := 0\<rparr>)"
proof -
  from assms(1) obtain a where "decode_head s = Some a" by blast
  with assms(2) show ?thesis
    by (simp add: decode_thread_pass_def every_sink_full_eq)
qed

lemma pass_decodes_only_if:
  assumes "decode_thread_pass dof fmul s = Done (acts, s')"
    and "Decode_one_frame fl \<in> set acts"
  shows "\<exists>m\<in>set (sink_map s). \<exists>k\<in>set (stack_head m).
            audioq_size (sinks s k) < min_audioq_size (sinks s k)"
proof (rule ccontr)
  assume "\<not> ?thesis"
  then have full: "\<forall>m\<in>set (sink_map s). \<forall>k\<in>set (stack_head m).
                 min_audioq_size (sinks s k) \<le> audioq_size (sinks s k)"
    by (simp add: not_less)
  show False
  proof (cases "decode_head s")
    case None
    with assms show False
      by (auto simp: decode_thread_pass_def split: if_splits
          elim!: and_then.elims)
  next
    case (Some a)
    with full have "decode_thread_pass dof fmul s = Done ([SDL_Delay NOOP_DELAY], s\<lparr>sent_end_of_q := 0\<rparr>)"
      by (intro pass_full) simp_all
    with assms show False by auto
  qed
qed

text \<open>
  Claim C9. With an empty sink map the check over all sinks returns its default 1, so a
  pass of the worker with a decode head only sleeps \<^verbatim>\<open>NOOP_DELAY\<close> and does not call
  \<^verbatim>\<open>decode_one_frame\<close>; and a pass that calls it found an attached sink whose
  \<^verbatim>\<open>audioq_size\<close> is below its \<^verbatim>\<open>min_audioq_size\<close>.
\<close>

theorem worker_waits_without_sinks:
  "(sink_map s = [] \<longrightarrow> every_sink_full s = Done (1, s)) \<and>
   (decode_head s \<noteq> None \<and> sink_map s = [] \<longrightarrow>
      decode_thread_pass dof fmul s = Done ([SDL_Delay NOOP_DELAY], s\<lparr>sent_end_of_q := 0\<rparr>)) \<and>
   (decode_thread_pass dof fmul s = Done (acts, s') \<and> Decode_one_frame fl \<in> set acts \<longrightarrow>
      (\<exists>m\<in>set (sink_map s). \<exists>k\<in>set (stack_head m).
          audioq_size (sinks s k) < min_audioq_size (sinks s k)))"
proof (intro conjI impI)
  assume "sink_map s = []"
  then show "every_sink_full s = Done (1, s)"
    by (simp add: every_sink_full_def every_sink_def)
next
  assume "decode_head s \<noteq> None \<and> sink_map s = []"
  then show "decode_thread_pass dof fmul s = Done ([SDL_Delay NOOP_DELAY], s\<lparr>sent_end_of_q := 0\<rparr>)"
    by (intro pass_full) simp_all
next
  assume "decode_thread_pass dof fmul s = Done (acts, s') \<and> Decode_one_frame fl \<in> set acts"
  then show "\<exists>m\<in>set (sink_map s). \<exists>k\<in>set (stack_head m).
          audioq_size (sinks s k) < min_audioq_size (sinks s k)"
    using pass_decodes_only_if [of dof fmul s acts s' fl] by blast
qed

theorem worker_waits_without_sinks_witness:
  "sink_map playlist_created = [] \<and>
   every_sink_full playlist_created = Done (1, playlist_created) \<and>
   decode_thread_pass (\<lambda>fl t. Done (0, t)) (\<lambda>a b. a) (playlist_created\<lparr>decode_head := Some 1\<rparr>) =
     Done ([SDL_Delay NOOP_DELAY], playlist_created\<lparr>decode_head := Some 1, sent_end_of_q := 0\<rparr>) \<and>
   decode_thread_pass (\<lambda>fl t. Done (0, t)) (\<lambda>a b. a) hungry_example =
     Done ([Decode_one_frame 0], hungry_example\<lparr>sent_end_of_q := 0, p_volume := Fin 1\<rparr>) \<and>
   audioq_size (sinks hungry_example 1) < min_audioq_size (sinks hungry_example 1) \<and>
   (\<exists>m. m \<in> set (sink_map hungry_example) \<and> (\<exists>k. k \<in> set (stack_head m) \<and>
      audioq_size (sinks hungry_example k) < min_audioq_size (sinks hungry_example k)))"
proof -
  let ?dof = "\<lambda>(fl::nat) (t::GroovePlaylist). Done (0::int, t)"
  let ?fmul = "\<lambda>(a::double) (b::double). a"
  have e: "sink_map playlist_created = []"
    "decode_head (playlist_created\<lparr>decode_head := Some 1\<rparr>) \<noteq> None \<and>
     sink_map (playlist_created\<lparr>decode_head := Some 1\<rparr>) = []"
    by (simp_all add: playlist_created_def)
  have a: "every_sink_full playlist_created = Done (1, playlist_created)"
    using worker_waits_without_sinks [where s = playlist_created, THEN conjunct1] e(1) by blast
  have b: "decode_thread_pass ?dof ?fmul (playlist_created\<lparr>decode_head := Some 1\<rparr>) =
     Done ([SDL_Delay NOOP_DELAY], playlist_created\<lparr>decode_head := Some 1, sent_end_of_q := 0\<rparr>)"
    using worker_waits_without_sinks [where s = "playlist_created\<lparr>decode_head := Some 1\<rparr>"
        and dof = ?dof and fmul = ?fmul, THEN conjunct2, THEN conjunct1] e(2)
    by blast
  have c: "decode_thread_pass ?dof ?fmul hungry_example =
     Done ([Decode_one_frame 0], hungry_example\<lparr>sent_end_of_q := 0, p_volume := Fin 1\<rparr>)"
    by (simp add: decode_thread_pass_def every_sink_full_def every_sink_def sink_is_full_def
        hungry_example_def waiting_example_def ended_example_def playlist_created_def
        sink_example_def deref_def)
  have d: "audioq_size (sinks hungry_example 1) < min_audioq_size (sinks hungry_example 1)"
    by (simp add: hungry_example_def sink_example_def)
  have "\<exists>m\<in>set (sink_map hungry_example). \<exists>k\<in>set (stack_head m).
          audioq_size (sinks hungry_example k) < min_audioq_size (sinks hungry_example k)"
    using worker_waits_without_sinks [where s = hungry_example and dof = ?dof and fmul = ?fmul
        and acts = "[Decode_one_frame 0]" and fl = 0
        and s' = "hungry_example\<lparr>sent_end_of_q := 0, p_volume := Fin 1\<rparr>",
        THEN conjunct2, THEN conjunct2] c
    by simp
  then have f: "\<exists>m. m \<in> set (sink_map hungry_example) \<and> (\<exists>k. k \<in> set (stack_head m) \<and>
      audioq_size (sinks hungry_example k) < min_audioq_size (sinks hungry_example k))"
    by blast
  from e(1) a b c d f show ?thesis by blast
qed


subsection \<open>The worker at the end of the playlist\<close>

lemma decode_thread_idle:
  "decode_head t = None \<Longrightarrow> sent_end_of_q t \<noteq> 0 \<Longrightarrow> abort_request t = 0 \<Longrightarrow>
   decode_thread dof fmul n t = Done (replicate n (SDL_Delay NOOP_DELAY), t)"
  by (induction n) (simp_all add: decode_thread_pass_def)




lemma pass_clears:
  assumes "decode_head s \<noteq> None"
    and frame: "\<forall>fl t r t'. dof fl t = Done (r, t') \<longrightarrow> sent_end_of_q t' = sent_end_of_q t"
    and pass: "decode_thread_pass dof fmul s = Done (acts, s')"
  shows "sent_end_of_q s' = 0"
proof -
  from assms(1) obtain a where a: "decode_head s = Some a" by blast
  let ?s1 = "s\<lparr>sent_end_of_q := 0\<rparr>"
  show ?thesis
  proof (cases "\<forall>m\<in>set (sink_map s). \<forall>k\<in>set (stack_head m).
                 min_audioq_size (sinks s k) \<le> audioq_size (sinks s k)")
    case True
    with a pass have "s' = ?s1"
      by (simp add: decode_thread_pass_def every_sink_full_eq)
    then show ?thesis by simp
  next
    case False
    with a pass have p1: "and_then (deref (items ?s1) (Some a)) (\<lambda>dh.
              let fl = file dh;
                  s3 = ?s1\<lparr>p_volume := fmul (gain dh) (volume ?s1)\<rparr>
              in and_then (dof fl s3) (\<lambda>(r, s4).
                   if r < 0 then
                     and_then (deref (items s4) (decode_head s4)) (\<lambda>dh4.
                       let s5 = s4\<lparr>decode_head := next dh4\<rparr> in
                       if decode_head s5 \<noteq> None then
                         and_then (deref (items s5) (decode_head s5)) (\<lambda>nx.
                           Done ([Decode_one_frame fl],
                                 upd_file (file nx) (\<lambda>f. f\<lparr>seek_pos := 0, seek_flush := 0\<rparr>) s5))
                       else Done ([Decode_one_frame fl], s5))
                   else Done ([Decode_one_frame fl], s4))) = Done (acts, s')"
      by (simp add: decode_thread_pass_def every_sink_full_eq)
    then obtain dh where dh: "items s a = Some dh"
      by (cases "items s a") (simp_all add: deref_def)
    let ?s3 = "?s1\<lparr>p_volume := fmul (gain dh) (volume ?s1)\<rparr>"
    from p1 dh obtain r s4 where d: "dof (file dh) ?s3 = Done (r, s4)"
      by (cases "dof (file dh) ?s3") (auto simp: deref_def Let_def)
    from frame d have s4: "sent_end_of_q s4 = 0" by fastforce
    from p1 dh d have p2: "(if r < 0 then
                     and_then (deref (items s4) (decode_head s4)) (\<lambda>dh4.
                       let s5 = s4\<lparr>decode_head := next dh4\<rparr> in
                       if decode_head s5 \<noteq> None then
                         and_then (deref (items s5) (decode_head s5)) (\<lambda>nx.
                           Done ([Decode_one_frame (file dh)],
                                 upd_file (file nx) (\<lambda>f. f\<lparr>seek_pos := 0, seek_flush := 0\<rparr>) s5))
                       else Done ([Decode_one_frame (file dh)], s5))
                   else Done ([Decode_one_frame (file dh)], s4)) = Done (acts, s')"
      by (simp add: deref_def Let_def)
    show ?thesis
    proof (cases "r < 0")
      case False
      with p2 s4 show ?thesis by auto
    next
      case True
      with p2 obtain dh4 where dh4: "deref (items s4) (decode_head s4) = Done dh4"
        by (cases "deref (items s4) (decode_head s4)") simp_all
      let ?s5 = "s4\<lparr>decode_head := next dh4\<rparr>"
      show ?thesis
      proof (cases "next dh4")
        case None
        with p2 True dh4 have "s' = ?s5" by (simp add: Let_def)
        with s4 show ?thesis by simp
      next
        case (Some n)
        with p2 True dh4 s4 show ?thesis
          by (cases "items s4 n") (auto simp: Let_def deref_def upd_file_def)
      qed
    qed
  qed
qed


subsection \<open>Attach, detach and the rebuild flag\<close>

lemma built: "init_filter_graph av_ok 0 playlist_created = Done (0, built_example)"
  by (simp add: init_filter_graph_def init_filter_graph_volume_def init_filter_graph_asplit_def
      avfilter_graph_create_filter_def avfilter_link_def dgreater_def Let_def
      av_ok_def playlist_created_def built_example_def file_example_def)

lemma groove_buffer_unref_flag:
  "groove_buffer_unref b s = Done s' \<Longrightarrow>
   rebuild_filter_graph_flag s' = rebuild_filter_graph_flag s"
  by (auto simp: groove_buffer_unref_def Let_def split: option.splits if_splits)

lemma audioq_cleanup_flag:
  assumes "audioq_cleanup k e s = Done s'"
  shows "rebuild_filter_graph_flag s' = rebuild_filter_graph_flag s"
proof (cases "e = end_of_q_sentinel")
  case True
  with assms show ?thesis by (simp add: audioq_cleanup_def)
next
  case False
  with assms have "\<exists>bf::GrooveBuffer. groove_buffer_unref e
          (upd_sink k (\<lambda>c. c\<lparr>audioq_buf_count := audioq_buf_count c - 1,
                                audioq_size := audioq_size c - buf_size bf\<rparr>) s) = Done s'"
    by (auto simp: audioq_cleanup_def and_then_Done_iff)
  then obtain bf :: GrooveBuffer where "groove_buffer_unref e
          (upd_sink k (\<lambda>c. c\<lparr>audioq_buf_count := audioq_buf_count c - 1,
                                audioq_size := audioq_size c - buf_size bf\<rparr>) s) = Done s'"
    by blast
  from groove_buffer_unref_flag [OF this] show ?thesis by (simp add: upd_sink_def)
qed

lemma flush_entries_flag:
  "flush_entries k es s = Done s' \<Longrightarrow>
   rebuild_filter_graph_flag s' = rebuild_filter_graph_flag s"
proof (induction es arbitrary: s)
  case Nil
  then show ?case by simp
next
  case (Cons e es)
  from Cons.prems obtain s1 where c: "audioq_cleanup k e s = Done s1"
    and r: "flush_entries k es s1 = Done s'"
    by (auto simp: and_then_Done_iff)
  from audioq_cleanup_flag [OF c] Cons.IH [OF r] show ?case by simp
qed

lemma remove_sink_from_map_flag:
  "remove_sink_from_map sink s = (r, s') \<Longrightarrow>
   rebuild_filter_graph_flag s' = rebuild_filter_graph_flag s"
  by (auto simp: remove_sink_from_map_def split: option.splits prod.splits)

lemma groove_queue_flush_flag:
  assumes "groove_queue_flush sink s = Done s'"
  shows "rebuild_filter_graph_flag s' = rebuild_filter_graph_flag s"
proof -
  from assms obtain s0 where
    f: "flush_entries sink (entries (audioq (sinks s sink))) s = Done s0"
    and s': "s' = upd_sink sink (\<lambda>k. k\<lparr>audioq := (audioq k)\<lparr>entries := []\<rparr>\<rparr>) s0"
    by (auto simp: groove_queue_flush_def and_then_Done_iff)
  from flush_entries_flag [OF f] s' show ?thesis by (simp add: upd_sink_def)
qed

lemma groove_sink_detach_flag:
  assumes "groove_sink_detach sink s = Done (r, s')"
  shows "rebuild_filter_graph_flag s' = rebuild_filter_graph_flag s"
proof (cases "playlist (sinks s sink)")
  case None
  with assms show ?thesis by (simp add: groove_sink_detach_def)
next
  case (Some u)
  with assms have "and_then (groove_queue_flush sink (groove_queue_abort sink s)) (\<lambda>s1.
            let (err, s2) = remove_sink_from_map sink s1
            in Done (err, upd_sink sink (\<lambda>k. k\<lparr>playlist := None\<rparr>) s2)) = Done (r, s')"
    by (simp add: groove_sink_detach_def)
  then obtain s1 where f: "groove_queue_flush sink (groove_queue_abort sink s) = Done s1"
    and l: "(let (err, s2) = remove_sink_from_map sink s1
            in Done (err, upd_sink sink (\<lambda>k. k\<lparr>playlist := None\<rparr>) s2)) = Done (r, s')"
    by (auto simp: and_then_Done_iff)
  obtain err s2 where rm: "remove_sink_from_map sink s1 = (err, s2)"
    by (cases "remove_sink_from_map sink s1")
  with l have s': "s' = upd_sink sink (\<lambda>k. k\<lparr>playlist := None\<rparr>) s2" by simp
  from groove_queue_flush_flag [OF f]
  have "rebuild_filter_graph_flag s1 = rebuild_filter_graph_flag s"
    by (simp add: groove_queue_abort_def upd_sink_def)
  with remove_sink_from_map_flag [OF rm] s' show ?thesis by (simp add: upd_sink_def)
qed

lemma add_sink_to_map_flag:
  assumes "add_sink_to_map se me sink s = Done (r, s')"
  shows "rebuild_filter_graph_flag s' = rebuild_filter_graph_flag s"
  using assms
  by (auto simp: add_sink_to_map_def and_then_Done_iff split: option.splits if_splits)

lemma groove_sink_attach_flag:
  assumes "groove_sink_attach lib se me sink s = Done (r, s')"
  shows "rebuild_filter_graph_flag s' = rebuild_filter_graph_flag s"
proof -
  define s2 where "s2 =
     upd_sink sink (\<lambda>k. k\<lparr>min_audioq_size :=
         int_mul (int_mul (buffer_size k)
             (av_get_channel_layout_nb_channels lib (channel_layout (audio_format (sinks s sink)))))
           (av_get_bytes_per_sample lib (sample_fmt (audio_format (sinks s sink))))\<rparr>)
       (upd_sink sink (\<lambda>k. k\<lparr>bytes_per_sec :=
         int_mul (int_mul
             (av_get_channel_layout_nb_channels lib (channel_layout (audio_format (sinks s sink))))
             (sample_rate (audio_format (sinks s sink))))
           (av_get_bytes_per_sample lib (sample_fmt (audio_format (sinks s sink))))\<rparr>) s)"
  have s2: "rebuild_filter_graph_flag s2 = rebuild_filter_graph_flag s"
    by (simp add: s2_def upd_sink_def)
  from assms have "and_then (add_sink_to_map se me sink s2) (\<lambda>(err, s3).
           if err < 0 then Done (err, s3)
           else Done (0, upd_sink sink (\<lambda>k. k\<lparr>playlist := Some ()\<rparr>)
                           (groove_queue_reset sink s3))) = Done (r, s')"
    by (simp add: groove_sink_attach_def Let_def s2_def)
  then obtain e s3 where a: "add_sink_to_map se me sink s2 = Done (e, s3)"
    and r: "(if e < 0 then Done (e, s3)
           else Done (0, upd_sink sink (\<lambda>k. k\<lparr>playlist := Some ()\<rparr>)
                           (groove_queue_reset sink s3))) = Done (r, s')"
    by (auto simp: and_then_Done_iff)
  from r have "rebuild_filter_graph_flag s' = rebuild_filter_graph_flag s3"
    by (auto simp: upd_sink_def groove_queue_reset_def split: if_splits)
  with add_sink_to_map_flag [OF a] s2 show ?thesis by simp
qed

text \<open>
  Claim C1. The code does not set the flag: whenever \<^verbatim>\<open>groove_sink_attach\<close> or
  \<^verbatim>\<open>groove_sink_detach\<close> returns, \<^verbatim>\<open>rebuild_filter_graph_flag\<close> has the value it had
  before the call. After a build has cleared the flag, it is still clear after a sink was
  attached and after it was detached.
\<close>

theorem attach_detach_keep_rebuild_flag:
  "(groove_sink_attach lib stack_entry map_entry sink s = Done (r, s') \<longrightarrow>
      rebuild_filter_graph_flag s' = rebuild_filter_graph_flag s) \<and>
   (groove_sink_detach sink s = Done (r, s') \<longrightarrow>
      rebuild_filter_graph_flag s' = rebuild_filter_graph_flag s)"
  using groove_sink_attach_flag [of lib stack_entry map_entry sink s r s']
    groove_sink_detach_flag [of sink s r s']
  by blast

theorem attach_detach_keep_rebuild_flag_witness:
  "init_filter_graph av_ok 0 playlist_created = Done (0, built_example) \<and>
   rebuild_filter_graph_flag built_example = 0 \<and>
   groove_sink_attach lib_example (Some 10) (Some 11) 0 built_example = Done (0, attached_example) \<and>
   rebuild_filter_graph_flag attached_example = 0 \<and>
   groove_sink_detach 0 attached_example = Done (0, detached_example) \<and>
   rebuild_filter_graph_flag detached_example = 0"
proof -
  have b: "init_filter_graph av_ok 0 playlist_created = Done (0, built_example)"
    by (simp add: init_filter_graph_def init_filter_graph_volume_def init_filter_graph_asplit_def
        avfilter_graph_create_filter_def avfilter_link_def dgreater_def Let_def
        av_ok_def playlist_created_def built_example_def file_example_def)
  have f: "rebuild_filter_graph_flag built_example = 0"
    by (simp add: built_example_def playlist_created_def)
  have a: "groove_sink_attach lib_example (Some 10) (Some 11) 0 built_example = Done (0, attached_example)"
    by (simp add: groove_sink_attach_def add_sink_to_map_def groove_queue_reset_def upd_sink_def
        int_mul_def int_wrap_def
        Let_def lib_example_def built_example_def playlist_created_def sink_example_def
        attached_example_def)
  have d: "groove_sink_detach 0 attached_example = Done (0, detached_example)"
    by (simp add: groove_sink_detach_def groove_queue_flush_def groove_queue_abort_def
        remove_sink_from_map_def upd_sink_def Let_def
        built_example_def playlist_created_def sink_example_def
        attached_example_def detached_example_def)
  from attach_detach_keep_rebuild_flag [where s = built_example and s' = attached_example
      and lib = lib_example and stack_entry = "Some 10" and map_entry = "Some 11" and sink = 0
      and r = 0, THEN conjunct1] a f
  have fa: "rebuild_filter_graph_flag attached_example = 0" by simp
  from attach_detach_keep_rebuild_flag [where s = attached_example and s' = detached_example
      and sink = 0 and r = 0, THEN conjunct2] d fa
  have fd: "rebuild_filter_graph_flag detached_example = 0" by simp
  from b f a fa d fd show ?thesis by blast
qed


subsection \<open>Attach when the allocation fails\<close>

text \<open>
  Claim C5. When \<^verbatim>\<open>av_mallocz\<close> returns NULL for the stack entry,
  \<^verbatim>\<open>add_sink_to_map\<close> stores through the NULL pointer before it tests it, and so does
  \<^verbatim>\<open>groove_sink_attach\<close>; the same happens with the map entry when no class has the
  format of the sink.
\<close>

theorem attach_dereferences_failed_allocation:
  "add_sink_to_map None map_entry sink s = Fault NullDeref \<and>
   groove_sink_attach lib None map_entry sink s = Fault NullDeref \<and>
   add_sink_to_map (Some 10) None 0 built_example = Fault NullDeref \<and>
   groove_sink_attach lib_example (Some 10) None 0 built_example = Fault NullDeref"
  by (simp add: groove_sink_attach_def add_sink_to_map_def Let_def upd_sink_def
      built_example_def playlist_created_def)

subsection \<open>Inserting before the head\<close>

text \<open>
  Claim C2. Inserting the first item gives a consistent list. Inserting a second item
  before it makes the new item the head and sets its \<open>next\<close>, but leaves \<open>prev\<close> of
  the old head NULL.
\<close>

theorem insert_before_head_leaves_prev:
  "groove_playlist_insert (Some 11) 0 (Fin 1) None playlist_created = Done (Some 11, one_item_example) \<and>
   groove_playlist_insert (Some 12) 0 (Fin 1) (Some 11) one_item_example =
     Done (Some 12, before_head_example) \<and>
   head before_head_example = Some 12 \<and>
   map_option next (items before_head_example 12) = Some (Some 11) \<and>
   map_option prev (items before_head_example 11) = Some None"
  by (simp add: groove_playlist_insert_def deref_def upd_item_def upd_file_def Let_def
      one_item_example_def before_head_example_def playlist_created_def fun_upd_twist)

lemma one_item_links_consistent: "links_consistent one_item_example"
  by (simp add: links_consistent_def one_item_example_def)

lemma before_head_links_broken: "\<not> links_consistent before_head_example"
proof
  assume "links_consistent before_head_example"
  then have "\<forall>a\<in>dom (items before_head_example). \<forall>b\<in>dom (items before_head_example).
         (map_option next (items before_head_example a) = Some (Some b)) =
         (map_option prev (items before_head_example b) = Some (Some a))"
    by (simp add: links_consistent_def)
  moreover have "12 \<in> dom (items before_head_example)" "11 \<in> dom (items before_head_example)"
    by (simp_all add: before_head_example_def)
  ultimately have "(map_option next (items before_head_example 12) = Some (Some 11)) =
         (map_option prev (items before_head_example 11) = Some (Some 12))"
    by blast
  then show False by (simp add: before_head_example_def)
qed


subsection \<open>The links of the list under the other operations\<close>

text \<open>
  The purge that \<^verbatim>\<open>groove_playlist_remove\<close> runs over the sinks touches neither the items
  nor the head and tail of the playlist.
\<close>

lemma groove_queue_purge_list:
  "groove_queue_purge k t = Done t' \<Longrightarrow>
   items t' = items t \<and> head t' = head t \<and> tail t' = tail t"
  by (auto simp: groove_queue_purge_def and_then_Done_iff upd_sink_def)

lemma purge_sink_list:
  "purge_sink k t = Done (r, t') \<Longrightarrow>
   items t' = items t \<and> head t' = head t \<and> tail t' = tail t"
  by (auto simp: purge_sink_def and_then_Done_iff dest!: groove_queue_purge_list
      split: option.splits if_splits)

lemma every_sink_stack_list:
  assumes "\<And>k t r t'. func k t = Done (r, t') \<Longrightarrow>
             items t' = items t \<and> head t' = head t \<and> tail t' = tail t"
  shows "every_sink_stack func d st s = Done (r, s') \<Longrightarrow>
         items s' = items s \<and> head s' = head s \<and> tail s' = tail s"
proof (induction st arbitrary: s)
  case Nil
  then show ?case by simp
next
  case (Cons k st)
  from Cons.prems obtain v s1 where f: "func k s = Done (v, s1)"
    and rest: "(if v \<noteq> d then Done (Some v, s1) else every_sink_stack func d st s1) = Done (r, s')"
    by (auto simp: and_then_Done_iff)
  show ?case
  proof (cases "v \<noteq> d")
    case True
    with rest assms [OF f] show ?thesis by simp
  next
    case False
    with rest have "every_sink_stack func d st s1 = Done (r, s')" by simp
    from Cons.IH [OF this] assms [OF f] show ?thesis by simp
  qed
qed

lemma every_sink_map_list:
  assumes "\<And>k t r t'. func k t = Done (r, t') \<Longrightarrow>
             items t' = items t \<and> head t' = head t \<and> tail t' = tail t"
  shows "every_sink_map func d ms s = Done (r, s') \<Longrightarrow>
         items s' = items s \<and> head s' = head s \<and> tail s' = tail s"
proof (induction ms arbitrary: s)
  case Nil
  then show ?case by simp
next
  case (Cons m ms)
  from Cons.prems obtain v s1 where f: "every_sink_stack func d (stack_head m) s = Done (v, s1)"
    and rest: "(case v of Some x \<Rightarrow> Done (x, s1) | None \<Rightarrow> every_sink_map func d ms s1) = Done (r, s')"
    by (auto simp: and_then_Done_iff)
  note l1 = every_sink_stack_list [of func, OF assms f]
  show ?case
  proof (cases v)
    case (Some x)
    with rest l1 show ?thesis by simp
  next
    case None
    with rest have "every_sink_map func d ms s1 = Done (r, s')" by simp
    from Cons.IH [OF this] l1 show ?thesis by simp
  qed
qed

lemma every_sink_purge_list:
  "every_sink purge_sink 0 s = Done (r, s') \<Longrightarrow>
   items s' = items s \<and> head s' = head s \<and> tail s' = tail s"
  unfolding every_sink_def
  by (rule every_sink_map_list [of purge_sink]) (rule purge_sink_list)

text \<open>
  What \<^verbatim>\<open>groove_playlist_remove\<close> does to the list when it returns: the item is gone,
  its neighbours are linked to each other, and head and tail move off the item.
\<close>

lemma groove_playlist_remove_links:
  assumes "groove_playlist_remove itm s = Done s'"
  obtains x i0 where "itm = Some x" "items s x = Some i0"
    "\<And>pv. prev i0 = Some pv \<Longrightarrow> pv \<in> dom (items s)"
    "\<And>n. next i0 = Some n \<Longrightarrow> n \<in> dom (items s)"
    "dom (items s') = dom (items s) - {x}"
    "\<And>a. a \<noteq> x \<Longrightarrow> a \<in> dom (items s) \<Longrightarrow>
        map_option next (items s' a) =
          (if prev i0 = Some a then Some (next i0) else map_option next (items s a))"
    "\<And>a. a \<noteq> x \<Longrightarrow> a \<in> dom (items s) \<Longrightarrow>
        map_option prev (items s' a) =
          (if next i0 = Some a then Some (prev i0) else map_option prev (items s a))"
    "head s' = (if prev i0 = None then next i0 else head s)"
    "tail s' = (if next i0 = None then prev i0 else tail s)"
proof -
  from assms obtain x i0 where x: "itm = Some x" "items s x = Some i0"
    by (auto simp: groove_playlist_remove_def and_then_Done_iff deref_Done_iff)
  define s1 where "s1 = (if itm = decode_head s then s\<lparr>decode_head := next i0\<rparr> else s)"
  have i1: "items s1 = items s" "head s1 = head s" "tail s1 = tail s"
    by (simp_all add: s1_def)
  from assms x obtain s2 i2 s3 r s4 where
    a: "(case prev i0 of
            Some pv \<Rightarrow>
              and_then (deref (items s1) (Some pv)) (\<lambda>prev_item.
                Done (upd_item pv (\<lambda>i. i\<lparr>next := next i0\<rparr>) s1))
          | None \<Rightarrow> Done (s1\<lparr>head := next i0\<rparr>)) = Done s2"
    and i2: "items s2 x = Some i2"
    and b: "(case next i2 of
                   Some n \<Rightarrow>
                     and_then (deref (items s2) (Some n)) (\<lambda>next_item.
                       Done (upd_item n (\<lambda>i. i\<lparr>prev := prev i2\<rparr>) s2))
                 | None \<Rightarrow> Done (s2\<lparr>tail := prev i2\<rparr>)) = Done s3"
    and p: "every_sink purge_sink 0 (s3\<lparr>purge_item := itm\<rparr>) = Done (r, s4)"
    and f: "s' = s4\<lparr>purge_item := None, items := (items s4)(x := None)\<rparr>"
    unfolding groove_playlist_remove_def s1_def
    by (auto simp: and_then_Done_iff deref_Done_iff Let_def)
  from every_sink_purge_list [OF p]
  have i4: "items s4 = items s3" "head s4 = head s3" "tail s4 = tail s3" by simp_all
  have pvd: "pv \<in> dom (items s)" if "prev i0 = Some pv" for pv
    using a that i1 by (auto simp: and_then_Done_iff deref_Done_iff)
  have a2: "items s2 = (case prev i0 of
                Some pv \<Rightarrow> (items s)(pv := map_option (\<lambda>i. i\<lparr>next := next i0\<rparr>) (items s pv))
              | None \<Rightarrow> items s)"
    "head s2 = (if prev i0 = None then next i0 else head s)" "tail s2 = tail s"
    using a i1 by (auto simp: and_then_Done_iff upd_item_def split: option.splits)
  have same: "i2 = i0"
    using i2 x(2) by (auto simp: a2 split: option.splits if_splits)
  have nd: "n \<in> dom (items s)" if "next i0 = Some n" for n
    using b that same a2(1) by (auto simp: and_then_Done_iff deref_Done_iff split: option.splits if_splits)
  have b3: "items s3 = (case next i0 of
                Some n \<Rightarrow> (items s2)(n := map_option (\<lambda>i. i\<lparr>prev := prev i0\<rparr>) (items s2 n))
              | None \<Rightarrow> items s2)"
    "head s3 = head s2" "tail s3 = (if next i0 = None then prev i0 else tail s2)"
    using b same by (auto simp: and_then_Done_iff upd_item_def split: option.splits)
  have it: "items s' = (items s3)(x := None)" "head s' = head s3" "tail s' = tail s3"
    using f i4 by simp_all
  have d: "dom (items s') = dom (items s) - {x}"
    using pvd nd by (auto simp: it b3 a2 split: option.splits if_splits)
  have l: "map_option next (items s' a) =
          (if prev i0 = Some a then Some (next i0) else map_option next (items s a)) \<and>
        map_option prev (items s' a) =
          (if next i0 = Some a then Some (prev i0) else map_option prev (items s a))"
    if "a \<noteq> x" "a \<in> dom (items s)" for a
    using that by (auto simp: it b3 a2 split: option.splits)
  have hd: "head s' = (if prev i0 = None then next i0 else head s)"
    and tl: "tail s' = (if next i0 = None then prev i0 else tail s)"
    by (simp_all add: it b3 a2)
  show ?thesis
  proof (rule that [of x i0])
    show "itm = Some x" "items s x = Some i0" by (rule x)+
    show "pv \<in> dom (items s)" if "prev i0 = Some pv" for pv using that by (rule pvd)
    show "n \<in> dom (items s)" if "next i0 = Some n" for n using that by (rule nd)
    show "dom (items s') = dom (items s) - {x}" by (rule d)
    show "map_option next (items s' a) =
          (if prev i0 = Some a then Some (next i0) else map_option next (items s a))"
      if "a \<noteq> x" "a \<in> dom (items s)" for a
      using l [OF that] by (rule conjunct1)
    show "map_option prev (items s' a) =
          (if next i0 = Some a then Some (prev i0) else map_option prev (items s a))"
      if "a \<noteq> x" "a \<in> dom (items s)" for a
      using l [OF that] by (rule conjunct2)
    show "head s' = (if prev i0 = None then next i0 else head s)" by (rule hd)
    show "tail s' = (if next i0 = None then prev i0 else tail s)" by (rule tl)
  qed
qed

lemma links_closedD:
  assumes "links_closed s" and "a \<in> dom (items s)"
  shows "map_option prev (items s a) = Some (Some b) \<Longrightarrow> b \<in> dom (items s)"
    and "map_option next (items s a) = Some (Some b) \<Longrightarrow> b \<in> dom (items s)"
  using assms unfolding links_closed_def by blast+

lemma links_consistentD:
  assumes "links_consistent s" and "a \<in> dom (items s)" and "b \<in> dom (items s)"
  shows "(map_option next (items s a) = Some (Some b)) =
         (map_option prev (items s b) = Some (Some a))"
  using assms unfolding links_consistent_def by blast


lemma no_link_to_unallocated:
  assumes cl: "links_closed s" and fresh: "items s a = None"
  shows "map_option next (items s x) \<noteq> Some (Some a)"
    and "map_option prev (items s x) \<noteq> Some (Some a)"
proof -
  have ad: "a \<notin> dom (items s)" using fresh by blast
  show "map_option next (items s x) \<noteq> Some (Some a)"
  proof
    assume l: "map_option next (items s x) = Some (Some a)"
    then have "x \<in> dom (items s)" by auto
    from links_closedD(2) [OF cl this l] ad show False by simp
  qed
  show "map_option prev (items s x) \<noteq> Some (Some a)"
  proof
    assume l: "map_option prev (items s x) = Some (Some a)"
    then have "x \<in> dom (items s)" by auto
    from links_closedD(1) [OF cl this l] ad show False by simp
  qed
qed


text \<open>
  \<^verbatim>\<open>groove_playlist_remove\<close> keeps the links consistent, and so does
  \<^verbatim>\<open>groove_playlist_insert\<close> in three of its four branches: before an item that has a
  predecessor, at the end of a list that has a tail, and into a list with no head.
\<close>

lemma remove_keeps_links_consistent:
  assumes inv: "links_consistent s" and rm: "groove_playlist_remove itm s = Done s'"
  shows "links_consistent s'"
proof -
  from rm obtain x i0 where
    ix: "itm = Some x"
    and x: "items s x = Some i0"
    and pd: "\<And>pv. prev i0 = Some pv \<Longrightarrow> pv \<in> dom (items s)"
    and nd: "\<And>n. next i0 = Some n \<Longrightarrow> n \<in> dom (items s)"
    and d: "dom (items s') = dom (items s) - {x}"
    and nx: "\<And>a. a \<noteq> x \<Longrightarrow> a \<in> dom (items s) \<Longrightarrow>
        map_option next (items s' a) =
          (if prev i0 = Some a then Some (next i0) else map_option next (items s a))"
    and pr: "\<And>a. a \<noteq> x \<Longrightarrow> a \<in> dom (items s) \<Longrightarrow>
        map_option prev (items s' a) =
          (if next i0 = Some a then Some (prev i0) else map_option prev (items s a))"
    and hd: "head s' = (if prev i0 = None then next i0 else head s)"
    and tl: "tail s' = (if next i0 = None then prev i0 else tail s)"
    by (rule groove_playlist_remove_links) (rule that)
  from inv have c: "\<And>a b. a \<in> dom (items s) \<Longrightarrow> b \<in> dom (items s) \<Longrightarrow>
         (map_option next (items s a) = Some (Some b)) =
         (map_option prev (items s b) = Some (Some a))"
    and h: "case head s of None \<Rightarrow> True
       | Some h \<Rightarrow> (case items s h of None \<Rightarrow> False | Some i \<Rightarrow> prev i = None)"
    and t: "case tail s of None \<Rightarrow> True
       | Some t \<Rightarrow> (case items s t of None \<Rightarrow> False | Some i \<Rightarrow> next i = None)"
    by (simp_all add: links_consistent_def)
  have xd: "x \<in> dom (items s)" using x by blast
  have xn: "map_option next (items s x) = Some (next i0)"
    "map_option prev (items s x) = Some (prev i0)"
    using x by simp_all
  \<comment> \<open>the neighbours of the removed item point to it\<close>
  have pn: "map_option next (items s pv) = Some (Some x)" if "prev i0 = Some pv" for pv
    using c [OF pd [OF that] xd] xn that by simp
  have np: "map_option prev (items s n) = Some (Some x)" if "next i0 = Some n" for n
    using c [OF xd nd [OF that]] xn that by simp
  have pair: "(map_option next (items s' a) = Some (Some b)) =
         (map_option prev (items s' b) = Some (Some a))"
    if ab: "a \<in> dom (items s')" "b \<in> dom (items s')" for a b
  proof -
    from ab d have a: "a \<noteq> x" "a \<in> dom (items s)" and b: "b \<noteq> x" "b \<in> dom (items s)"
      by auto
    show ?thesis
    proof (cases "prev i0 = Some a")
      case pa: True
      show ?thesis
      proof (cases "next i0 = Some b")
        case True
        with pa a b show ?thesis by (simp add: nx pr)
      next
        case False
        from pn [OF pa] c [OF a(2) b(2)] b(1)
        have "map_option prev (items s b) \<noteq> Some (Some a)" by auto
        with pa False a b show ?thesis by (simp add: nx pr)
      qed
    next
      case npa: False
      show ?thesis
      proof (cases "next i0 = Some b")
        case True
        from np [OF True] c [OF a(2) b(2)] a(1)
        have "map_option next (items s a) \<noteq> Some (Some b)" by auto
        with npa True a b show ?thesis by (simp add: nx pr)
      next
        case False
        with npa a b c [OF a(2) b(2)] show ?thesis by (simp add: nx pr)
      qed
    qed
  qed
  have head_ok: "case head s' of None \<Rightarrow> True
       | Some h \<Rightarrow> (case items s' h of None \<Rightarrow> False | Some i \<Rightarrow> prev i = None)"
  proof (cases "prev i0")
    case None
    show ?thesis
    proof (cases "next i0")
      case nn: None
      with None hd show ?thesis by simp
    next
      case (Some n)
      from np [OF Some] None xn have "n \<noteq> x" by auto
      with pr [OF this nd [OF Some]] Some None hd nd [OF Some] d show ?thesis
        by (auto split: option.splits)
    qed
  next
    case (Some pv)
    show ?thesis
    proof (cases "head s")
      case None
      with Some hd show ?thesis by simp
    next
      case hh: (Some hh)
      with h obtain hi where hi: "items s hh = Some hi" "prev hi = None"
        by (auto split: option.splits)
      with x Some have "hh \<noteq> x" by auto
      moreover have "next i0 \<noteq> Some hh"
        using np [of hh] hi by auto
      moreover from hi have "hh \<in> dom (items s)" by blast
      ultimately show ?thesis
        using pr [of hh] hi Some hd hh d by (auto split: option.splits)
    qed
  qed
  have tail_ok: "case tail s' of None \<Rightarrow> True
       | Some t \<Rightarrow> (case items s' t of None \<Rightarrow> False | Some i \<Rightarrow> next i = None)"
  proof (cases "next i0")
    case None
    show ?thesis
    proof (cases "prev i0")
      case pp: None
      with None tl show ?thesis by simp
    next
      case (Some pv)
      from pn [OF Some] None xn have "pv \<noteq> x" by auto
      with nx [OF this pd [OF Some]] Some None tl pd [OF Some] d show ?thesis
        by (auto split: option.splits)
    qed
  next
    case (Some n)
    show ?thesis
    proof (cases "tail s")
      case None
      with Some tl show ?thesis by simp
    next
      case tt: (Some tt)
      with t obtain ti where ti: "items s tt = Some ti" "next ti = None"
        by (auto split: option.splits)
      with x Some have "tt \<noteq> x" by auto
      moreover have "prev i0 \<noteq> Some tt"
        using pn [of tt] ti by auto
      moreover from ti have "tt \<in> dom (items s)" by blast
      ultimately show ?thesis
        using nx [of tt] ti Some tl tt d by (auto split: option.splits)
    qed
  qed
  from head_ok tail_ok pair show ?thesis
    unfolding links_consistent_def by blast
qed

lemma remove_keeps_links_closed:
  assumes inv: "links_consistent s" and cl: "links_closed s"
    and rm: "groove_playlist_remove itm s = Done s'"
  shows "links_closed s'"
proof -
  from rm obtain x i0 where
    ix: "itm = Some x"
    and x: "items s x = Some i0"
    and pd: "\<And>pv. prev i0 = Some pv \<Longrightarrow> pv \<in> dom (items s)"
    and nd: "\<And>n. next i0 = Some n \<Longrightarrow> n \<in> dom (items s)"
    and d: "dom (items s') = dom (items s) - {x}"
    and nx: "\<And>a. a \<noteq> x \<Longrightarrow> a \<in> dom (items s) \<Longrightarrow>
        map_option next (items s' a) =
          (if prev i0 = Some a then Some (next i0) else map_option next (items s a))"
    and pr: "\<And>a. a \<noteq> x \<Longrightarrow> a \<in> dom (items s) \<Longrightarrow>
        map_option prev (items s' a) =
          (if next i0 = Some a then Some (prev i0) else map_option prev (items s a))"
    and hd: "head s' = (if prev i0 = None then next i0 else head s)"
    and tl: "tail s' = (if next i0 = None then prev i0 else tail s)"
    by (rule groove_playlist_remove_links) (rule that)
  have xd: "x \<in> dom (items s)" using x by blast
  have xn: "map_option next (items s x) = Some (next i0)"
    "map_option prev (items s x) = Some (prev i0)"
    using x by simp_all
  have nxt: "b \<in> dom (items s')"
    if a: "a \<in> dom (items s')" and l: "map_option next (items s' a) = Some (Some b)" for a b
  proof -
    from a d have ax: "a \<noteq> x" and ad: "a \<in> dom (items s)" by auto
    show ?thesis
    proof (cases "prev i0 = Some a")
      case True
      with l have b: "next i0 = Some b" by (simp add: nx [OF ax ad])
      have "b \<noteq> x"
      proof
        assume "b = x"
        with b xn have "map_option next (items s x) = Some (Some x)" by simp
        with links_consistentD [OF inv xd xd] xn have "prev i0 = Some x" by simp
        with True ax show False by simp
      qed
      with nd [OF b] d show ?thesis by simp
    next
      case False
      with l have b: "map_option next (items s a) = Some (Some b)" by (simp add: nx [OF ax ad])
      have bd: "b \<in> dom (items s)" by (rule links_closedD(2) [OF cl ad b])
      have "b \<noteq> x"
      proof
        assume "b = x"
        with b links_consistentD [OF inv ad xd] xn have "prev i0 = Some a" by simp
        with False show False by simp
      qed
      with bd d show ?thesis by simp
    qed
  qed
  have prv: "b \<in> dom (items s')"
    if a: "a \<in> dom (items s')" and l: "map_option prev (items s' a) = Some (Some b)" for a b
  proof -
    from a d have ax: "a \<noteq> x" and ad: "a \<in> dom (items s)" by auto
    show ?thesis
    proof (cases "next i0 = Some a")
      case True
      with l have b: "prev i0 = Some b" by (simp add: pr [OF ax ad])
      have "b \<noteq> x"
      proof
        assume "b = x"
        with b xn have "map_option prev (items s x) = Some (Some x)" by simp
        with links_consistentD [OF inv xd xd] xn have "next i0 = Some x" by simp
        with True ax show False by simp
      qed
      with pd [OF b] d show ?thesis by simp
    next
      case False
      with l have b: "map_option prev (items s a) = Some (Some b)" by (simp add: pr [OF ax ad])
      have bd: "b \<in> dom (items s)" by (rule links_closedD(1) [OF cl ad b])
      have "b \<noteq> x"
      proof
        assume "b = x"
        with b links_consistentD [OF inv xd ad] xn have "next i0 = Some a" by simp
        with False show False by simp
      qed
      with bd d show ?thesis by simp
    qed
  qed
  from nxt prv show ?thesis unfolding links_closed_def by blast
qed


lemma insert_in_middle_keeps_links:
  assumes inv: "links_consistent s" and cl: "links_closed s"
    and fresh: "items s a = None"
    and n: "items s n = Some ni" and pv: "prev ni = Some pv"
  shows "\<exists>s'. groove_playlist_insert (Some a) fl gn (Some n) s = Done (Some a, s') \<and>
           links_consistent s' \<and> links_closed s'"
proof -
  have nd: "n \<in> dom (items s)" using n by blast
  have pn: "map_option prev (items s n) = Some (Some pv)" using n pv by simp
  have pvd: "pv \<in> dom (items s)" by (rule links_closedD(1) [OF cl nd pn])
  then obtain pi where pi: "items s pv = Some pi" by blast
  have pvn: "map_option next (items s pv) = Some (Some n)"
    using links_consistentD [OF inv pvd nd] pn by simp
  have ne: "a \<noteq> n" "a \<noteq> pv" using fresh n pi by auto
  define s' where "s' = upd_item n (\<lambda>i. i\<lparr>prev := Some a\<rparr>)
      (upd_item pv (\<lambda>i. i\<lparr>next := Some a\<rparr>)
        (s\<lparr>items := (items s)(a \<mapsto> \<lparr>file = fl, gain = gn, prev = Some pv, next = Some n\<rparr>)\<rparr>))"
  have run: "groove_playlist_insert (Some a) fl gn (Some n) s = Done (Some a, s')"
    using ne n pv pi
    by (simp add: groove_playlist_insert_def deref_def upd_item_def Let_def s'_def)
  have d: "dom (items s') = insert a (dom (items s))"
    using nd pvd by (auto simp: s'_def upd_item_def split: if_splits)
  have nx: "map_option next (items s' x) =
      (if x = a then Some (Some n) else if x = pv then Some (Some a)
       else map_option next (items s x))" for x
    using ne n pi by (simp add: s'_def upd_item_def)
  have pr: "map_option prev (items s' x) =
      (if x = n then Some (Some a) else if x = a then Some (Some pv)
       else map_option prev (items s x))" for x
    using ne n pi by (simp add: s'_def upd_item_def)
  have hd: "head s' = head s" and tl: "tail s' = tail s"
    by (simp_all add: s'_def upd_item_def)
  note no_a = no_link_to_unallocated [OF cl fresh]
  have pair: "(map_option next (items s' x) = Some (Some y)) =
         (map_option prev (items s' y) = Some (Some x))"
    if xy: "x \<in> dom (items s')" "y \<in> dom (items s')" for x y
  proof (cases "x = a")
    case True
    have "map_option prev (items s y) = Some (Some a) \<longleftrightarrow> False" using no_a(2) by simp
    with True ne show ?thesis by (auto simp: nx pr)
  next
    case xa: False
    with xy d have xd: "x \<in> dom (items s)" by simp
    show ?thesis
    proof (cases "y = a")
      case True
      have "(x = pv) = (map_option next (items s x) = Some (Some n))"
        using links_consistentD [OF inv xd nd] pn by auto
      with True xa ne no_a(1) [of x] show ?thesis by (auto simp: nx pr)
    next
      case ya: False
      with xy d have yd: "y \<in> dom (items s)" by simp
      have e1: "(map_option prev (items s n) = Some (Some x)) = (x = pv)" using pn by auto
      have e2: "(map_option next (items s pv) = Some (Some y)) = (y = n)" using pvn by auto
      from links_consistentD [OF inv xd yd] links_consistentD [OF inv xd nd]
        links_consistentD [OF inv pvd yd] e1 e2 xa ya
      show ?thesis by (auto simp: nx pr)
    qed
  qed
  from inv have h: "case head s of None \<Rightarrow> True
       | Some h \<Rightarrow> (case items s h of None \<Rightarrow> False | Some i \<Rightarrow> prev i = None)"
    and t: "case tail s of None \<Rightarrow> True
       | Some t \<Rightarrow> (case items s t of None \<Rightarrow> False | Some i \<Rightarrow> next i = None)"
    by (simp_all add: links_consistent_def)
  have head_ok: "case head s' of None \<Rightarrow> True
       | Some h \<Rightarrow> (case items s' h of None \<Rightarrow> False | Some i \<Rightarrow> prev i = None)"
  proof (cases "head s")
    case None
    then show ?thesis by (simp add: hd)
  next
    case (Some hh)
    with h obtain hi where hi: "items s hh = Some hi" "prev hi = None"
      by (auto split: option.splits)
    with n pv fresh have "hh \<noteq> n" "hh \<noteq> a" by auto
    with pr [of hh] hi Some show ?thesis by (auto simp: hd split: option.splits)
  qed
  have tail_ok: "case tail s' of None \<Rightarrow> True
       | Some t \<Rightarrow> (case items s' t of None \<Rightarrow> False | Some i \<Rightarrow> next i = None)"
  proof (cases "tail s")
    case None
    then show ?thesis by (simp add: tl)
  next
    case (Some tt)
    with t obtain ti where ti: "items s tt = Some ti" "next ti = None"
      by (auto split: option.splits)
    with pvn fresh have "tt \<noteq> pv" "tt \<noteq> a" by auto
    with nx [of tt] ti Some show ?thesis by (auto simp: tl split: option.splits)
  qed
  have cons: "links_consistent s'"
    using head_ok tail_ok pair unfolding links_consistent_def by blast
  have closed: "links_closed s'"
  proof -
    have "y \<in> dom (items s')"
      if "x \<in> dom (items s')" "map_option prev (items s' x) = Some (Some y) \<or>
         map_option next (items s' x) = Some (Some y)" for x y
    proof (cases "x = a")
      case True
      with that(2) ne nd pvd d show ?thesis by (auto simp: nx pr split: if_splits)
    next
      case False
      with that(1) d have xd: "x \<in> dom (items s)" by simp
      from that(2) False links_closedD [OF cl xd, of y] d show ?thesis
        by (auto simp: nx pr split: if_splits)
    qed
    then show ?thesis unfolding links_closed_def by blast
  qed
  from run cons closed show ?thesis by blast
qed

lemma insert_at_end_keeps_links:
  assumes inv: "links_consistent s" and cl: "links_closed s"
    and fresh: "items s a = None"
    and h: "head s = Some h" and t: "tail s = Some t"
  shows "\<exists>s'. groove_playlist_insert (Some a) fl gn None s = Done (Some a, s') \<and>
           links_consistent s' \<and> links_closed s'"
proof -
  from inv t obtain ti where ti: "items s t = Some ti" "next ti = None"
    by (auto simp: links_consistent_def split: option.splits)
  have td: "t \<in> dom (items s)" using ti by blast
  have tn: "map_option next (items s t) = Some None" using ti by simp
  have ne: "a \<noteq> t" using fresh ti by auto
  define s' where "s' = (upd_item t (\<lambda>i. i\<lparr>next := Some a\<rparr>)
        (s\<lparr>items := (items s)(a \<mapsto> \<lparr>file = fl, gain = gn, prev = Some t, next = None\<rparr>)\<rparr>))
      \<lparr>tail := Some a\<rparr>"
  have run: "groove_playlist_insert (Some a) fl gn None s = Done (Some a, s')"
    using ne ti h t
    by (simp add: groove_playlist_insert_def deref_def upd_item_def Let_def s'_def)
  have d: "dom (items s') = insert a (dom (items s))"
    using td by (auto simp: s'_def upd_item_def split: if_splits)
  have nx: "map_option next (items s' x) =
      (if x = a then Some None else if x = t then Some (Some a)
       else map_option next (items s x))" for x
    using ne ti by (simp add: s'_def upd_item_def)
  have pr: "map_option prev (items s' x) =
      (if x = a then Some (Some t) else map_option prev (items s x))" for x
    using ne ti by (simp add: s'_def upd_item_def)
  have hd: "head s' = head s" and tl: "tail s' = Some a"
    by (simp_all add: s'_def upd_item_def)
  note no_a = no_link_to_unallocated [OF cl fresh]
  have pair: "(map_option next (items s' x) = Some (Some y)) =
         (map_option prev (items s' y) = Some (Some x))"
    if xy: "x \<in> dom (items s')" "y \<in> dom (items s')" for x y
  proof (cases "x = a")
    case True
    with ne no_a(2) [of y] show ?thesis by (auto simp: nx pr)
  next
    case xa: False
    with xy d have xd: "x \<in> dom (items s)" by simp
    show ?thesis
    proof (cases "y = a")
      case True
      with xa ne no_a(1) [of x] show ?thesis by (auto simp: nx pr)
    next
      case ya: False
      with xy d have yd: "y \<in> dom (items s)" by simp
      from links_consistentD [OF inv xd yd] links_consistentD [OF inv td yd] tn xa ya
      show ?thesis by (auto simp: nx pr)
    qed
  qed
  have head_ok: "case head s' of None \<Rightarrow> True
       | Some h \<Rightarrow> (case items s' h of None \<Rightarrow> False | Some i \<Rightarrow> prev i = None)"
  proof -
    from inv h obtain hi where hi: "items s h = Some hi" "prev hi = None"
      by (auto simp: links_consistent_def split: option.splits)
    with fresh have "h \<noteq> a" by auto
    with pr [of h] hi h show ?thesis by (auto simp: hd split: option.splits)
  qed
  have tail_ok: "case tail s' of None \<Rightarrow> True
       | Some t \<Rightarrow> (case items s' t of None \<Rightarrow> False | Some i \<Rightarrow> next i = None)"
    using nx [of a] by (auto simp: tl split: option.splits)
  have cons: "links_consistent s'"
    using head_ok tail_ok pair unfolding links_consistent_def by blast
  have closed: "links_closed s'"
  proof -
    have "y \<in> dom (items s')"
      if "x \<in> dom (items s')" "map_option prev (items s' x) = Some (Some y) \<or>
         map_option next (items s' x) = Some (Some y)" for x y
    proof (cases "x = a")
      case True
      with that(2) ne td d show ?thesis by (auto simp: nx pr split: if_splits)
    next
      case False
      with that(1) d have xd: "x \<in> dom (items s)" by simp
      from that(2) False links_closedD [OF cl xd, of y] d show ?thesis
        by (auto simp: nx pr split: if_splits)
    qed
    then show ?thesis unfolding links_closed_def by blast
  qed
  from run cons closed show ?thesis by blast
qed

lemma insert_into_empty_keeps_links:
  assumes inv: "links_consistent s" and cl: "links_closed s"
    and fresh: "items s a = None"
    and h: "head s = None"
  shows "\<exists>s'. groove_playlist_insert (Some a) fl gn None s = Done (Some a, s') \<and>
           links_consistent s' \<and> links_closed s'"
proof -
  define s' where "s' = upd_file fl (\<lambda>f. f\<lparr>seek_pos := 0, seek_flush := 0\<rparr>)
      (s\<lparr>items := (items s)(a \<mapsto> \<lparr>file = fl, gain = gn, prev = None, next = None\<rparr>),
         head := Some a, tail := Some a, decode_head := Some a\<rparr>)"
  have run: "groove_playlist_insert (Some a) fl gn None s = Done (Some a, s')"
    using h by (simp add: groove_playlist_insert_def Let_def s'_def)
  have d: "dom (items s') = insert a (dom (items s))"
    by (auto simp: s'_def upd_file_def)
  have nx: "map_option next (items s' x) =
      (if x = a then Some None else map_option next (items s x))" for x
    by (simp add: s'_def upd_file_def)
  have pr: "map_option prev (items s' x) =
      (if x = a then Some None else map_option prev (items s x))" for x
    by (simp add: s'_def upd_file_def)
  have hd: "head s' = Some a" and tl: "tail s' = Some a"
    by (simp_all add: s'_def upd_file_def)
  note no_a = no_link_to_unallocated [OF cl fresh]
  have pair: "(map_option next (items s' x) = Some (Some y)) =
         (map_option prev (items s' y) = Some (Some x))"
    if xy: "x \<in> dom (items s')" "y \<in> dom (items s')" for x y
  proof (cases "x = a")
    case True
    with no_a(2) [of y] show ?thesis by (auto simp: nx pr)
  next
    case xa: False
    with xy d have xd: "x \<in> dom (items s)" by simp
    show ?thesis
    proof (cases "y = a")
      case True
      with xa no_a(1) [of x] show ?thesis by (auto simp: nx pr)
    next
      case ya: False
      with xy d have yd: "y \<in> dom (items s)" by simp
      from links_consistentD [OF inv xd yd] xa ya
      show ?thesis by (auto simp: nx pr)
    qed
  qed
  have head_ok: "case head s' of None \<Rightarrow> True
       | Some h \<Rightarrow> (case items s' h of None \<Rightarrow> False | Some i \<Rightarrow> prev i = None)"
    using pr [of a] by (auto simp: hd split: option.splits)
  have tail_ok: "case tail s' of None \<Rightarrow> True
       | Some t \<Rightarrow> (case items s' t of None \<Rightarrow> False | Some i \<Rightarrow> next i = None)"
    using nx [of a] by (auto simp: tl split: option.splits)
  have cons: "links_consistent s'"
    using head_ok tail_ok pair unfolding links_consistent_def by blast
  have closed: "links_closed s'"
  proof -
    have "y \<in> dom (items s')"
      if "x \<in> dom (items s')" "map_option prev (items s' x) = Some (Some y) \<or>
         map_option next (items s' x) = Some (Some y)" for x y
    proof (cases "x = a")
      case True
      with that(2) show ?thesis by (auto simp: nx pr split: if_splits)
    next
      case False
      with that(1) d have xd: "x \<in> dom (items s)" by simp
      from that(2) False links_closedD [OF cl xd, of y] d show ?thesis
        by (auto simp: nx pr split: if_splits)
    qed
    then show ?thesis unfolding links_closed_def by blast
  qed
  from run cons closed show ?thesis by blast
qed

text \<open>
  The fourth branch, before an item that has no predecessor, never gives a consistent
  list: the new item points to the old head and the old head keeps \<open>prev = NULL\<close>.
\<close>

lemma insert_before_head_breaks_links:
  assumes fresh: "items s a = None" and n: "items s n = Some ni" and pv: "prev ni = None"
  shows "\<exists>s'. groove_playlist_insert (Some a) fl gn (Some n) s = Done (Some a, s') \<and>
           \<not> links_consistent s'"
proof -
  have ne: "a \<noteq> n" using fresh n by auto
  define s' where "s' = s\<lparr>items := (items s)(a \<mapsto> \<lparr>file = fl, gain = gn, prev = None, next = Some n\<rparr>),
      head := Some a\<rparr>"
  have run: "groove_playlist_insert (Some a) fl gn (Some n) s = Done (Some a, s')"
    using ne n pv by (simp add: groove_playlist_insert_def deref_def Let_def s'_def)
  have d: "a \<in> dom (items s')" "n \<in> dom (items s')"
    using n by (auto simp: s'_def)
  have l: "map_option next (items s' a) = Some (Some n)"
    "map_option prev (items s' n) = Some None"
    using ne n pv by (simp_all add: s'_def)
  have "\<not> links_consistent s'"
  proof
    assume "links_consistent s'"
    from links_consistentD [OF this d] l show False by simp
  qed
  with run show ?thesis by blast
qed


subsection \<open>Clear and count\<close>

text \<open>
  Claim C6. \<^verbatim>\<open>groove_playlist_clear\<close> on a playlist of one item removes and frees the
  item and then reads \<^verbatim>\<open>node->next\<close> from it; and three inserts into the empty
  playlist, the second and third before the first item, leave a list in which
  \<^verbatim>\<open>groove_playlist_count\<close> finds two items.
\<close>

theorem clear_reads_freed_item:
  "groove_playlist_clear one_item_example = Some (Fault (Dangling 11)) \<and>
   groove_playlist_insert (Some 13) 0 (Fin 1) (Some 11) before_head_example =
     Done (Some 13, lost_item_example) \<and>
   groove_playlist_count lost_item_example = Some (Done 2)"
proof -
  have r: "groove_playlist_remove (Some 11) one_item_example =
       Done (one_item_example\<lparr>head := None, tail := None, decode_head := None, items := Map.empty\<rparr>)"
    by (simp add: groove_playlist_remove_def deref_def every_sink_def Let_def
        one_item_example_def playlist_created_def)
  have h: "head one_item_example = Some 11"
    by (simp add: one_item_example_def)
  have l: "clear_loop (Some 11) one_item_example = Some (Fault (Dangling 11))"
    by (subst clear_loop.simps, subst r) (simp add: deref_def)
  have c: "groove_playlist_clear one_item_example = Some (Fault (Dangling 11))"
    by (simp add: groove_playlist_clear_def h l)
  have i: "groove_playlist_insert (Some 13) 0 (Fin 1) (Some 11) before_head_example =
     Done (Some 13, lost_item_example)"
    by (simp add: groove_playlist_insert_def deref_def upd_item_def upd_file_def Let_def
      one_item_example_def before_head_example_def lost_item_example_def playlist_created_def
      fun_upd_twist)
  have n: "groove_playlist_count lost_item_example = Some (Done 2)"
    by (simp add: groove_playlist_count_def count_loop.simps deref_def
        lost_item_example_def before_head_example_def one_item_example_def)
  from c i n show ?thesis by blast
qed

subsection \<open>Reference counts of buffers\<close>

lemma frame_to_groove_buffer_ref_count:
  assumes "frame_to_groove_buffer lib buffer b mutex fr s = Done (Some a, s')"
  shows "map_option ref_count (buffers s' a) = Some 0"
  using assms
  by (auto simp: frame_to_groove_buffer_def and_then_Done_iff split: option.splits if_splits)

lemma groove_queue_put_buffer:
  assumes "buffers s a = Some bf"
  shows "groove_queue_put k (Some a) s =
     (if q_abort_request (audioq (sinks s k)) then Done (- 1, s)
      else Done (0, upd_sink k (\<lambda>c. c\<lparr>audioq := (audioq c)\<lparr>entries := entries (audioq c) @ [Some a]\<rparr>,
                                        audioq_buf_count := audioq_buf_count c + 1,
                                        audioq_size := audioq_size c + buf_size bf\<rparr>) s))"
  using assms
  by (simp add: groove_queue_put_def audioq_put_def end_of_q_sentinel_def deref_def Let_def
      upd_sink_def)

lemma groove_buffer_ref_eq:
  assumes "buffers s a = Some bf"
  shows "groove_buffer_ref (Some a) s =
     Done (s\<lparr>buffers := (buffers s)(a \<mapsto> bf\<lparr>ref_count := ref_count bf + 1\<rparr>)\<rparr>)"
  using assms by (simp add: groove_buffer_ref_def)

lemma audio_decode_frame_stack_refs:
  assumes "buffers s a = Some bf"
  shows "\<exists>s'. audio_decode_frame_stack (Some a) stack s = Done s' \<and>
     buffers s' = (buffers s)(a \<mapsto> bf\<lparr>ref_count := ref_count bf + int (accepting s stack)\<rparr>) \<and>
     frames s' = frames s \<and> frames_freed s' = frames_freed s \<and>
     (\<forall>k. q_abort_request (audioq (sinks s' k)) = q_abort_request (audioq (sinks s k)) \<and>
          entries (audioq (sinks s' k)) =
            entries (audioq (sinks s k)) @
            replicate (if q_abort_request (audioq (sinks s k)) then 0 else count_list stack k) (Some a))"
  using assms
proof (induction stack arbitrary: s bf)
  case Nil
  then show ?case by (simp add: accepting_def map_upd_triv)
next
  case (Cons x stack)
  show ?case
  proof (cases "q_abort_request (audioq (sinks s x))")
    case True
    have step: "audio_decode_frame_stack (Some a) (x # stack) s =
                audio_decode_frame_stack (Some a) stack s"
      using True Cons.prems by (simp add: groove_queue_put_buffer)
    have acc: "accepting s (x # stack) = accepting s stack"
      using True by (simp add: accepting_def)
    have cnt: "(if q_abort_request (audioq (sinks s k)) then 0 else count_list (x # stack) k) =
               (if q_abort_request (audioq (sinks s k)) then 0 else count_list stack k)" for k
      using True by auto
    from Cons.IH [OF Cons.prems] show ?thesis
      unfolding step acc cnt .
  next
    case False
    let ?s1 = "upd_sink x (\<lambda>c. c\<lparr>audioq := (audioq c)\<lparr>entries := entries (audioq c) @ [Some a]\<rparr>,
                                        audioq_buf_count := audioq_buf_count c + 1,
                                        audioq_size := audioq_size c + buf_size bf\<rparr>) s"
    let ?bf2 = "bf\<lparr>ref_count := ref_count bf + 1\<rparr>"
    let ?s2 = "?s1\<lparr>buffers := (buffers ?s1)(a \<mapsto> ?bf2)\<rparr>"
    have b1: "buffers ?s1 a = Some bf" using Cons.prems by (simp add: upd_sink_def)
    have b2: "buffers ?s2 a = Some ?bf2" by simp
    have step: "audio_decode_frame_stack (Some a) (x # stack) s =
                audio_decode_frame_stack (Some a) stack ?s2"
      using False Cons.prems b1
      by (simp add: groove_queue_put_buffer groove_buffer_ref_eq)
    have ab: "q_abort_request (audioq (sinks ?s2 k)) = q_abort_request (audioq (sinks s k))" for k
      by (simp add: upd_sink_def)
    have acc: "accepting ?s2 stack = accepting s stack"
      by (simp only: accepting_def ab)
    from Cons.IH [OF b2] obtain s' where
      r: "audio_decode_frame_stack (Some a) stack ?s2 = Done s'"
      and bs: "buffers s' = (buffers ?s2)(a \<mapsto> ?bf2\<lparr>ref_count := ref_count ?bf2 + int (accepting ?s2 stack)\<rparr>)"
      and fs: "frames s' = frames ?s2" "frames_freed s' = frames_freed ?s2"
      and qs: "\<forall>k. q_abort_request (audioq (sinks s' k)) = q_abort_request (audioq (sinks ?s2 k)) \<and>
          entries (audioq (sinks s' k)) =
            entries (audioq (sinks ?s2 k)) @
            replicate (if q_abort_request (audioq (sinks ?s2 k)) then 0 else count_list stack k) (Some a)"
      by blast
    have n: "ref_count ?bf2 + int (accepting ?s2 stack) = ref_count bf + int (accepting s (x # stack))"
      using False by (simp add: acc) (simp add: accepting_def)
    have "buffers s' = (buffers s)(a \<mapsto> bf\<lparr>ref_count := ref_count bf + int (accepting s (x # stack))\<rparr>)"
      using bs unfolding n by (simp add: upd_sink_def)
    moreover have "frames s' = frames s" "frames_freed s' = frames_freed s"
      using fs by (simp_all add: upd_sink_def)
    moreover have "\<forall>k. q_abort_request (audioq (sinks s' k)) = q_abort_request (audioq (sinks s k)) \<and>
          entries (audioq (sinks s' k)) =
            entries (audioq (sinks s k)) @
            replicate (if q_abort_request (audioq (sinks s k)) then 0 else count_list (x # stack) k) (Some a)"
      using qs False by (simp add: upd_sink_def replicate_append_same)
    moreover have "audio_decode_frame_stack (Some a) (x # stack) s = Done s'"
      using step r by (simp only:)
    ultimately show ?thesis by blast
  qed
qed

lemma groove_buffer_unref_keeps:
  assumes "buffers s a = Some bf" "ref_count bf \<noteq> 1"
  shows "groove_buffer_unref (Some a) s =
     Done (s\<lparr>buffers := (buffers s)(a \<mapsto> bf\<lparr>ref_count := ref_count bf - 1\<rparr>)\<rparr>)"
  using assms by (simp add: groove_buffer_unref_def Let_def)

lemma groove_buffer_unref_frees:
  assumes "buffers s a = Some bf" "ref_count bf = 1" "frames s (frame bf) = Some fm"
  shows "groove_buffer_unref (Some a) s =
     Done (s\<lparr>frames := (frames s)(frame bf := None),
             frames_freed := frames_freed s @ [frame bf],
             buffers := (buffers s)(a := None)\<rparr>)"
  using assms by (simp add: groove_buffer_unref_def Let_def)

lemma groove_buffer_unref_freed:
  assumes "buffers s a = None"
  shows "groove_buffer_unref (Some a) s = Fault (Dangling a)"
  using assms by (simp add: groove_buffer_unref_def)

lemma audio_decode_frame_fan_out_refs:
  assumes b: "buffers s a = Some bf" and z: "ref_count bf = 0"
    and f: "frames s (frame bf) = Some fm"
  shows "\<exists>s'. audio_decode_frame_fan_out (Some a) stack s = Done s' \<and>
     (if accepting s stack = 0
      then buffers s' a = None \<and> frames s' (frame bf) = None \<and>
           frames_freed s' = frames_freed s @ [frame bf]
      else buffers s' a = Some (bf\<lparr>ref_count := int (accepting s stack)\<rparr>) \<and>
           frames s' = frames s \<and> frames_freed s' = frames_freed s) \<and>
     (\<forall>k. entries (audioq (sinks s' k)) =
            entries (audioq (sinks s k)) @
            replicate (if q_abort_request (audioq (sinks s k)) then 0 else count_list stack k) (Some a))"
proof -
  from audio_decode_frame_stack_refs [OF b, of stack] obtain s1 where
    r: "audio_decode_frame_stack (Some a) stack s = Done s1"
    and bs: "buffers s1 = (buffers s)(a \<mapsto> bf\<lparr>ref_count := ref_count bf + int (accepting s stack)\<rparr>)"
    and fs: "frames s1 = frames s" "frames_freed s1 = frames_freed s"
    and qs: "\<forall>k. q_abort_request (audioq (sinks s1 k)) = q_abort_request (audioq (sinks s k)) \<and>
          entries (audioq (sinks s1 k)) =
            entries (audioq (sinks s k)) @
            replicate (if q_abort_request (audioq (sinks s k)) then 0 else count_list stack k) (Some a)"
    by blast
  let ?n = "int (accepting s stack)"
  let ?b1 = "bf\<lparr>ref_count := ?n\<rparr>"
  let ?b2 = "bf\<lparr>ref_count := ?n + 1\<rparr>"
  have b1: "buffers s1 a = Some ?b1" using bs z by simp
  let ?s2 = "s1\<lparr>buffers := (buffers s1)(a \<mapsto> ?b2)\<rparr>"
  have ref: "groove_buffer_ref (Some a) s1 = Done ?s2"
    using groove_buffer_ref_eq [OF b1] by simp
  have b2: "buffers ?s2 a = Some ?b2" by simp
  have fo: "audio_decode_frame_fan_out (Some a) stack s = groove_buffer_unref (Some a) ?s2"
    by (simp add: audio_decode_frame_fan_out_def r ref)
  show ?thesis
  proof (cases "accepting s stack = 0")
    case True
    have "groove_buffer_unref (Some a) ?s2 =
       Done (?s2\<lparr>frames := (frames ?s2)(frame ?b2 := None),
             frames_freed := frames_freed ?s2 @ [frame ?b2],
             buffers := (buffers ?s2)(a := None)\<rparr>)"
      using f fs True by (intro groove_buffer_unref_frees [OF b2]) simp_all
    with fo True fs qs show ?thesis by simp
  next
    case False
    have "groove_buffer_unref (Some a) ?s2 =
       Done (?s2\<lparr>buffers := (buffers ?s2)(a \<mapsto> ?b2\<lparr>ref_count := ref_count ?b2 - 1\<rparr>)\<rparr>)"
      using False by (intro groove_buffer_unref_keeps [OF b2]) simp
    with fo False fs qs show ?thesis by simp
  qed
qed

lemma unref_times_keeps:
  "buffers s a = Some bf \<Longrightarrow> int j < ref_count bf \<Longrightarrow>
   unref_times j (Some a) s =
     Done (s\<lparr>buffers := (buffers s)(a \<mapsto> bf\<lparr>ref_count := ref_count bf - int j\<rparr>)\<rparr>)"
proof (induction j arbitrary: s bf)
  case 0
  then show ?case by (simp add: map_upd_triv)
next
  case (Suc j)
  let ?b1 = "bf\<lparr>ref_count := ref_count bf - 1\<rparr>"
  let ?s1 = "s\<lparr>buffers := (buffers s)(a \<mapsto> ?b1)\<rparr>"
  from Suc.prems have u: "groove_buffer_unref (Some a) s = Done ?s1"
    by (intro groove_buffer_unref_keeps) simp_all
  have "buffers ?s1 a = Some ?b1" "int j < ref_count ?b1" using Suc.prems by simp_all
  from Suc.IH [OF this] u show ?case by (simp add: fun_upd_def algebra_simps cong: if_cong)
qed

lemma unref_times_frees:
  assumes "buffers s a = Some bf" "ref_count bf = int (Suc n)" "frames s (frame bf) = Some fm"
  shows "unref_times (Suc n) (Some a) s =
     Done (s\<lparr>frames := (frames s)(frame bf := None),
             frames_freed := frames_freed s @ [frame bf],
             buffers := (buffers s)(a := None)\<rparr>)"
  using assms
proof (induction n arbitrary: s bf)
  case 0
  then show ?case using groove_buffer_unref_frees [of s a bf fm] by (simp add: fun_upd_def)
next
  case (Suc n)
  let ?b1 = "bf\<lparr>ref_count := ref_count bf - 1\<rparr>"
  let ?s1 = "s\<lparr>buffers := (buffers s)(a \<mapsto> ?b1)\<rparr>"
  from Suc.prems have u: "groove_buffer_unref (Some a) s = Done ?s1"
    by (intro groove_buffer_unref_keeps) simp_all
  have "buffers ?s1 a = Some ?b1" "ref_count ?b1 = int (Suc n)" "frames ?s1 (frame ?b1) = Some fm"
    using Suc.prems by simp_all
  from Suc.IH [OF this] have "unref_times (Suc n) (Some a) ?s1 =
     Done (s\<lparr>frames := (frames s)(frame bf := None),
             frames_freed := frames_freed s @ [frame bf],
             buffers := (buffers s)(a := None)\<rparr>)"
    by (simp add: fun_upd_def cong: if_cong)
  with u show ?case by (simp add: fun_upd_def cong: if_cong)
qed

text \<open>
  The counts when no other thread runs between the steps of the fan-out. A buffer made
  by \<^verbatim>\<open>frame_to_groove_buffer\<close> has \<open>ref_count = 0\<close>. The fan-out of such a buffer
  over a stack puts it into the queue of every sink that takes it and leaves
  \<open>ref_count\<close> equal to the number of those puts: when no sink took it, the closing ref
  and unref free the buffer and pass its frame to \<^verbatim>\<open>av_frame_free\<close> once; otherwise
  nothing is freed. A buffer with \<open>ref_count = n + 1\<close> stays allocated through the first
  \<open>n\<close> calls of \<^verbatim>\<open>groove_buffer_unref\<close>, the next call frees it and its frame once,
  and a further call finds it freed.
\<close>

lemma buffer_reference_counting:
  "(frame_to_groove_buffer lib buffer b mutex fr s = Done (Some a, s') \<longrightarrow>
      map_option ref_count (buffers s' a) = Some 0) \<and>
   (buffers s a = Some bf \<and> ref_count bf = 0 \<and> frames s (frame bf) \<noteq> None \<longrightarrow>
      (\<exists>s'. audio_decode_frame_fan_out (Some a) stack s = Done s' \<and>
         (if accepting s stack = 0
          then buffers s' a = None \<and> frames s' (frame bf) = None \<and>
               frames_freed s' = frames_freed s @ [frame bf]
          else buffers s' a = Some (bf\<lparr>ref_count := int (accepting s stack)\<rparr>) \<and>
               frames s' = frames s \<and> frames_freed s' = frames_freed s) \<and>
         (\<forall>k. entries (audioq (sinks s' k)) =
                entries (audioq (sinks s k)) @
                replicate (if q_abort_request (audioq (sinks s k)) then 0 else count_list stack k)
                  (Some a)))) \<and>
   (buffers s a = Some bf \<and> ref_count bf = int (Suc n) \<and> frames s (frame bf) \<noteq> None \<longrightarrow>
      (\<forall>j\<le>n. unref_times j (Some a) s =
                Done (s\<lparr>buffers := (buffers s)(a \<mapsto> bf\<lparr>ref_count := int (Suc n) - int j\<rparr>)\<rparr>)) \<and>
      unref_times (Suc n) (Some a) s =
        Done (s\<lparr>frames := (frames s)(frame bf := None),
                frames_freed := frames_freed s @ [frame bf],
                buffers := (buffers s)(a := None)\<rparr>) \<and>
      unref_times (Suc (Suc n)) (Some a) s = Fault (Dangling a))"
proof (intro conjI impI)
  assume "frame_to_groove_buffer lib buffer b mutex fr s = Done (Some a, s')"
  then show "map_option ref_count (buffers s' a) = Some 0"
    by (rule frame_to_groove_buffer_ref_count)
next
  assume "buffers s a = Some bf \<and> ref_count bf = 0 \<and> frames s (frame bf) \<noteq> None"
  then obtain fm where "buffers s a = Some bf" "ref_count bf = 0" "frames s (frame bf) = Some fm"
    by blast
  then show "\<exists>s'. audio_decode_frame_fan_out (Some a) stack s = Done s' \<and>
         (if accepting s stack = 0
          then buffers s' a = None \<and> frames s' (frame bf) = None \<and>
               frames_freed s' = frames_freed s @ [frame bf]
          else buffers s' a = Some (bf\<lparr>ref_count := int (accepting s stack)\<rparr>) \<and>
               frames s' = frames s \<and> frames_freed s' = frames_freed s) \<and>
         (\<forall>k. entries (audioq (sinks s' k)) =
                entries (audioq (sinks s k)) @
                replicate (if q_abort_request (audioq (sinks s k)) then 0 else count_list stack k)
                  (Some a))"
    by (rule audio_decode_frame_fan_out_refs)
next
  assume h: "buffers s a = Some bf \<and> ref_count bf = int (Suc n) \<and> frames s (frame bf) \<noteq> None"
  show "\<forall>j\<le>n. unref_times j (Some a) s =
                Done (s\<lparr>buffers := (buffers s)(a \<mapsto> bf\<lparr>ref_count := int (Suc n) - int j\<rparr>)\<rparr>)"
  proof (intro allI impI)
    fix j assume "j \<le> n"
    with h have "int j < ref_count bf" by simp
    with h unref_times_keeps [of s a bf j] show "unref_times j (Some a) s =
                Done (s\<lparr>buffers := (buffers s)(a \<mapsto> bf\<lparr>ref_count := int (Suc n) - int j\<rparr>)\<rparr>)"
      by simp
  qed
next
  assume h: "buffers s a = Some bf \<and> ref_count bf = int (Suc n) \<and> frames s (frame bf) \<noteq> None"
  then obtain fm where f: "frames s (frame bf) = Some fm" by blast
  with h show "unref_times (Suc n) (Some a) s =
        Done (s\<lparr>frames := (frames s)(frame bf := None),
                frames_freed := frames_freed s @ [frame bf],
                buffers := (buffers s)(a := None)\<rparr>)"
    by (intro unref_times_frees) simp_all
next
  assume h: "buffers s a = Some bf \<and> ref_count bf = int (Suc n) \<and> frames s (frame bf) \<noteq> None"
  then obtain fm where f: "frames s (frame bf) = Some fm" by blast
  let ?s1 = "s\<lparr>buffers := (buffers s)(a \<mapsto> bf\<lparr>ref_count := ref_count bf - 1\<rparr>)\<rparr>"
  let ?s' = "s\<lparr>frames := (frames s)(frame bf := None),
                frames_freed := frames_freed s @ [frame bf],
                buffers := (buffers s)(a := None)\<rparr>"
  have fr: "unref_times (Suc n) (Some a) s = Done ?s'"
    using h f by (intro unref_times_frees) simp_all
  have split: "unref_times (Suc m) p t = and_then (unref_times m p t) (groove_buffer_unref p)"
    for m p t
  proof (induction m arbitrary: t)
    case 0
    show ?case by (cases "groove_buffer_unref p t") simp_all
  next
    case (Suc m)
    show ?case
      by (cases "groove_buffer_unref p t") (simp_all add: Suc [symmetric])
  qed
  have "unref_times (Suc (Suc n)) (Some a) s = groove_buffer_unref (Some a) ?s'"
    by (subst split) (simp only: fr and_then.simps)
  also have "\<dots> = Fault (Dangling a)"
    by (intro groove_buffer_unref_freed) simp
  finally show "unref_times (Suc (Suc n)) (Some a) s = Fault (Dangling a)" .
qed

lemma buffer_reference_counting_examples:
  "frame_to_groove_buffer lib_example (Some 7) True True 5 harvest_example =
     Done (Some 7, harvested_example) \<and>
   map_option ref_count (buffers harvested_example 7) = Some 0 \<and>
   (\<exists>s'. audio_decode_frame_fan_out (Some 7) [0, 2, 1] harvested_example = Done s' \<and>
         buffers s' 7 = Some (buffer_example\<lparr>ref_count := 2\<rparr>) \<and>
         frames s' 5 = Some frame_example \<and> frames_freed s' = [] \<and>
         entries (audioq (sinks s' 0)) = [Some 7] \<and>
         entries (audioq (sinks s' 1)) = [Some 7] \<and>
         entries (audioq (sinks s' 2)) = []) \<and>
   (\<exists>s'. audio_decode_frame_fan_out (Some 7) [2] harvested_example = Done s' \<and>
         buffers s' 7 = None \<and> frames s' 5 = None \<and> frames_freed s' = [5] \<and>
         entries (audioq (sinks s' 2)) = []) \<and>
   unref_times 1 (Some 7) shared_example =
     Done (shared_example\<lparr>buffers := [7 \<mapsto> buffer_example\<lparr>ref_count := 1\<rparr>]\<rparr>) \<and>
   unref_times (Suc 1) (Some 7) shared_example =
     Done (shared_example\<lparr>frames := Map.empty, frames_freed := [5], buffers := Map.empty\<rparr>) \<and>
   unref_times (Suc (Suc 1)) (Some 7) shared_example = Fault (Dangling 7)"
proof -
  have mk: "frame_to_groove_buffer lib_example (Some 7) True True 5 harvest_example =
     Done (Some 7, harvested_example)"
    by (simp add: frame_to_groove_buffer_def frame_size_def int_mul_def int_wrap_def deref_def
        lib_example_def
        harvest_example_def harvested_example_def waiting_example_def ended_example_def
        playlist_created_def frame_example_def buffer_example_def file_example_def)
  note t = buffer_reference_counting [where s = harvested_example and a = 7
      and bf = buffer_example]
  from buffer_reference_counting [where lib = lib_example and buffer = "Some 7" and b = True
      and mutex = True and fr = 5 and s = harvest_example and s' = harvested_example and a = 7,
      THEN conjunct1] mk
  have z: "map_option ref_count (buffers harvested_example 7) = Some 0"
    by blast
  have pre: "buffers harvested_example 7 = Some buffer_example \<and> ref_count buffer_example = 0 \<and>
             frames harvested_example (frame buffer_example) \<noteq> None"
    by (simp add: harvested_example_def harvest_example_def buffer_example_def)
  have ab: "\<not> q_abort_request (audioq (sinks harvested_example 0))"
    "\<not> q_abort_request (audioq (sinks harvested_example 1))"
    "q_abort_request (audioq (sinks harvested_example 2))"
    by (simp_all add: harvested_example_def harvest_example_def waiting_example_def
        ended_example_def playlist_created_def sink_example_def)
  have en: "entries (audioq (sinks harvested_example 0)) = []"
    "entries (audioq (sinks harvested_example 1)) = []"
    "entries (audioq (sinks harvested_example 2)) = []"
    by (simp_all add: harvested_example_def harvest_example_def waiting_example_def
        ended_example_def playlist_created_def sink_example_def)
  have fr: "frame buffer_example = 5" "frames harvested_example = [5 \<mapsto> frame_example]"
    "frames_freed harvested_example = []"
    by (simp_all add: harvested_example_def harvest_example_def waiting_example_def
        ended_example_def playlist_created_def buffer_example_def)
  have acc: "accepting harvested_example [0, 2, 1] = 2" "accepting harvested_example [2] = 0"
    using ab by (simp_all add: accepting_def)
  from t [where stack = "[0, 2, 1]", THEN conjunct2, THEN conjunct1] pre
  obtain s1 where s1: "audio_decode_frame_fan_out (Some 7) [0, 2, 1] harvested_example = Done s1"
    "(if accepting harvested_example [0, 2, 1] = 0
          then buffers s1 7 = None \<and> frames s1 (frame buffer_example) = None \<and>
               frames_freed s1 = frames_freed harvested_example @ [frame buffer_example]
          else buffers s1 7 = Some (buffer_example\<lparr>ref_count := int (accepting harvested_example [0, 2, 1])\<rparr>) \<and>
               frames s1 = frames harvested_example \<and> frames_freed s1 = frames_freed harvested_example)"
    "\<forall>k. entries (audioq (sinks s1 k)) =
                entries (audioq (sinks harvested_example k)) @
                replicate (if q_abort_request (audioq (sinks harvested_example k)) then 0 else count_list [0, 2, 1] k)
                  (Some 7)"
    by blast
  from s1(2) acc fr have a1: "buffers s1 7 = Some (buffer_example\<lparr>ref_count := 2\<rparr>)"
    "frames s1 5 = Some frame_example" "frames_freed s1 = []"
    by simp_all
  from s1(3) [rule_format, of 0] s1(3) [rule_format, of 1] s1(3) [rule_format, of 2] ab en
  have e1: "entries (audioq (sinks s1 0)) = [Some 7]" "entries (audioq (sinks s1 1)) = [Some 7]"
    "entries (audioq (sinks s1 2)) = []"
    by simp_all
  from t [where stack = "[2]", THEN conjunct2, THEN conjunct1] pre
  obtain s2 where s2: "audio_decode_frame_fan_out (Some 7) [2] harvested_example = Done s2"
    "(if accepting harvested_example [2] = 0
          then buffers s2 7 = None \<and> frames s2 (frame buffer_example) = None \<and>
               frames_freed s2 = frames_freed harvested_example @ [frame buffer_example]
          else buffers s2 7 = Some (buffer_example\<lparr>ref_count := int (accepting harvested_example [2])\<rparr>) \<and>
               frames s2 = frames harvested_example \<and> frames_freed s2 = frames_freed harvested_example)"
    "\<forall>k. entries (audioq (sinks s2 k)) =
                entries (audioq (sinks harvested_example k)) @
                replicate (if q_abort_request (audioq (sinks harvested_example k)) then 0 else count_list [2] k)
                  (Some 7)"
    by blast
  from s2(2) acc fr have a2: "buffers s2 7 = None" "frames s2 5 = None" "frames_freed s2 = [5]"
    by simp_all
  from s2(3) [rule_format, of 2] ab en have e2: "entries (audioq (sinks s2 2)) = []"
    by simp
  have pre3: "buffers shared_example 7 = Some (buffer_example\<lparr>ref_count := 2\<rparr>) \<and>
     ref_count (buffer_example\<lparr>ref_count := 2\<rparr>) = int (Suc 1) \<and>
     frames shared_example (frame (buffer_example\<lparr>ref_count := 2\<rparr>)) \<noteq> None"
    by (simp add: shared_example_def harvest_example_def buffer_example_def)
  note u = buffer_reference_counting [where s = shared_example and a = 7
      and bf = "buffer_example\<lparr>ref_count := 2\<rparr>" and n = 1,
      THEN conjunct2, THEN conjunct2, rule_format, OF pre3]
  have st1: "shared_example\<lparr>buffers := (buffers shared_example)
                 (7 \<mapsto> buffer_example\<lparr>ref_count := 2, ref_count := int (Suc 1) - int 1\<rparr>)\<rparr> =
             shared_example\<lparr>buffers := [7 \<mapsto> buffer_example\<lparr>ref_count := 1\<rparr>]\<rparr>"
    by (simp add: shared_example_def)
  have st2: "shared_example\<lparr>frames := (frames shared_example)(frame (buffer_example\<lparr>ref_count := 2\<rparr>) := None),
                frames_freed := frames_freed shared_example @ [frame (buffer_example\<lparr>ref_count := 2\<rparr>)],
                buffers := (buffers shared_example)(7 := None)\<rparr> =
             shared_example\<lparr>frames := Map.empty, frames_freed := [5], buffers := Map.empty\<rparr>"
    by (simp add: shared_example_def harvest_example_def waiting_example_def
        ended_example_def playlist_created_def buffer_example_def)
  from u have "unref_times 1 (Some 7) shared_example =
     Done (shared_example\<lparr>buffers := (buffers shared_example)
                 (7 \<mapsto> buffer_example\<lparr>ref_count := 2, ref_count := int (Suc 1) - int 1\<rparr>)\<rparr>)"
    by blast
  then have u1: "unref_times 1 (Some 7) shared_example =
     Done (shared_example\<lparr>buffers := [7 \<mapsto> buffer_example\<lparr>ref_count := 1\<rparr>]\<rparr>)"
    by (simp only: st1)
  from u have "unref_times (Suc 1) (Some 7) shared_example =
     Done (shared_example\<lparr>frames := (frames shared_example)(frame (buffer_example\<lparr>ref_count := 2\<rparr>) := None),
                frames_freed := frames_freed shared_example @ [frame (buffer_example\<lparr>ref_count := 2\<rparr>)],
                buffers := (buffers shared_example)(7 := None)\<rparr>)"
    by blast
  then have u2: "unref_times (Suc 1) (Some 7) shared_example =
     Done (shared_example\<lparr>frames := Map.empty, frames_freed := [5], buffers := Map.empty\<rparr>)"
    by (simp only: st2)
  from u have u3: "unref_times (Suc (Suc 1)) (Some 7) shared_example = Fault (Dangling 7)"
    by blast
  from mk z s1(1) a1 e1 s2(1) a2 e2 u1 u2 u3 show ?thesis by blast
qed

text \<open>
  Claim C4. The producer holds no reference of its own while it fans a buffer out, and
  the consumers take no lock that the producer holds. With one sink: the new buffer has
  \<open>ref_count = 0\<close>; the producer puts it into the queue of sink 0 and takes the
  reference of that put (lines 214 to 218); the consumer of sink 0 gets the buffer and
  unrefs it, which brings the count to zero and frees the buffer and its frame; the
  closing \<^verbatim>\<open>groove_buffer_ref\<close> of the producer (line 222) then writes to the freed
  buffer. When the consumer runs after the closing pair instead, the fan-out ends with
  the one reference of the queue.
\<close>

theorem fan_out_ref_after_free:
  "frame_to_groove_buffer lib_example (Some 7) True True 5 harvest_example =
     Done (Some 7, harvested_example) \<and>
   map_option ref_count (buffers harvested_example 7) = Some 0 \<and>
   audio_decode_frame_stack (Some 7) [0] harvested_example = Done put_example \<and>
   map_option ref_count (buffers put_example 7) = Some 1 \<and>
   groove_sink_get_buffer 0 None False put_example = Done (GROOVE_BUFFER_YES, Some 7, got_example) \<and>
   groove_buffer_unref (Some 7) got_example = Done freed_example \<and>
   buffers freed_example 7 = None \<and> frames_freed freed_example = [5] \<and>
   groove_buffer_ref (Some 7) freed_example = Fault (Dangling 7) \<and>
   audio_decode_frame_fan_out (Some 7) [0] harvested_example = Done put_example"
proof -
  note ex = harvest_example_def harvested_example_def waiting_example_def ended_example_def
    playlist_created_def frame_example_def buffer_example_def file_example_def sink_example_def
    put_example_def got_example_def freed_example_def
  have mk: "frame_to_groove_buffer lib_example (Some 7) True True 5 harvest_example =
     Done (Some 7, harvested_example)"
    by (simp add: frame_to_groove_buffer_def frame_size_def int_mul_def int_wrap_def deref_def
        lib_example_def ex)
  have z: "map_option ref_count (buffers harvested_example 7) = Some 0"
    by (simp add: ex)
  have st: "audio_decode_frame_stack (Some 7) [0] harvested_example = Done put_example"
    by (simp add: groove_queue_put_def audioq_put_def groove_buffer_ref_def upd_sink_def
        end_of_q_sentinel_def deref_def Let_def ex)
  have o: "map_option ref_count (buffers put_example 7) = Some 1"
    by (simp add: ex)
  have gt: "groove_sink_get_buffer 0 None False put_example =
      Done (GROOVE_BUFFER_YES, Some 7, got_example)"
    by (simp add: groove_sink_get_buffer_def groove_queue_get_def audioq_get_def upd_sink_def
        end_of_q_sentinel_def deref_def Let_def ex fun_eq_iff)
  have un: "groove_buffer_unref (Some 7) got_example = Done freed_example"
    by (simp add: groove_buffer_unref_def Let_def ex)
  have fr: "buffers freed_example 7 = None" "frames_freed freed_example = [5]"
    by (simp_all add: ex)
  have rf: "groove_buffer_ref (Some 7) freed_example = Fault (Dangling 7)"
    by (simp add: groove_buffer_ref_def ex)
  have fo: "audio_decode_frame_fan_out (Some 7) [0] harvested_example = Done put_example"
    unfolding audio_decode_frame_fan_out_def st
    by (simp add: groove_buffer_ref_def groove_buffer_unref_def Let_def ex)
  from mk z st o gt un fr rf fo show ?thesis by blast
qed

subsection \<open>The volume filter of a build\<close>

lemma volume_args_append: "volume_args (xs @ ys) = volume_args xs @ volume_args ys"
  by (induction xs rule: volume_args.induct) simp_all

lemma clamp01_in_unit_interval: "v \<noteq> NaN \<Longrightarrow> in_unit_interval (clamp01 v)"
  by (cases v) (auto simp: clamp01_def in_unit_interval_def dgreater_def)

lemma source_clamp_eq:
  "(let vol1 = (if dgreater v (Fin 1) then Fin 1 else v)
    in if dless vol1 (Fin 0) then Fin 0 else vol1) = clamp01 v"
  by (cases v) (auto simp: clamp01_def dgreater_def Let_def)

lemma deq_clamp01_one: "deq (clamp01 v) (Fin 1) = (v = PosInf \<or> (\<exists>x. v = Fin x \<and> 1 \<le> x))"
  by (cases v) (auto simp: clamp01_def)

lemma init_filter_graph_volume_eq:
  "init_filter_graph_volume av src g s =
     (if deq (clamp01 (p_volume s)) (Fin 1)
      then Continue src g (s\<lparr>filter_volume := p_volume s, volume_ctx := None\<rparr>)
      else if volume_err av < 0
      then Return (volume_err av)
             (s\<lparr>filter_volume := p_volume s, volume_ctx := None, filter_graph := Some g\<rparr>)
      else if volume_link_err av < 0
      then Return (volume_link_err av)
             (s\<lparr>filter_volume := p_volume s, volume_ctx := Some (length (nodes g)),
                filter_graph := Some (g\<lparr>nodes := nodes g @ [Volume (snprintf_volume av (clamp01 (p_volume s)))]\<rparr>)\<rparr>)
      else Continue (Some (length (nodes g)))
             (g\<lparr>nodes := nodes g @ [Volume (snprintf_volume av (clamp01 (p_volume s)))],
                links := links g @ [(src, 0, Some (length (nodes g)), 0)]\<rparr>)
             (s\<lparr>filter_volume := p_volume s, volume_ctx := Some (length (nodes g)),
                filter_graph := Some (g\<lparr>nodes := nodes g @ [Volume (snprintf_volume av (clamp01 (p_volume s)))],
                   links := links g @ [(src, 0, Some (length (nodes g)), 0)]\<rparr>)\<rparr>))"
proof -
  define c where "c = clamp01 (p_volume s)"
  have c: "(if dless (if dgreater (p_volume s) (Fin 1) then Fin 1 else p_volume s) (Fin 0)
            then Fin 0
            else (if dgreater (p_volume s) (Fin 1) then Fin 1 else p_volume s)) = c"
    unfolding c_def using source_clamp_eq [of "p_volume s"] unfolding Let_def .
  have pv: "p_volume (s\<lparr>filter_volume := p_volume s\<rparr>) = p_volume s" by simp
  have "init_filter_graph_volume av src g s =
     (if deq c (Fin 1)
      then Continue src g (s\<lparr>filter_volume := p_volume s, volume_ctx := None\<rparr>)
      else if volume_err av < 0
      then Return (volume_err av)
             (s\<lparr>filter_volume := p_volume s, volume_ctx := None, filter_graph := Some g\<rparr>)
      else if volume_link_err av < 0
      then Return (volume_link_err av)
             (s\<lparr>filter_volume := p_volume s, volume_ctx := Some (length (nodes g)),
                filter_graph := Some (g\<lparr>nodes := nodes g @ [Volume (snprintf_volume av c)]\<rparr>)\<rparr>)
      else Continue (Some (length (nodes g)))
             (g\<lparr>nodes := nodes g @ [Volume (snprintf_volume av c)],
                links := links g @ [(src, 0, Some (length (nodes g)), 0)]\<rparr>)
             (s\<lparr>filter_volume := p_volume s, volume_ctx := Some (length (nodes g)),
                filter_graph := Some (g\<lparr>nodes := nodes g @ [Volume (snprintf_volume av c)],
                   links := links g @ [(src, 0, Some (length (nodes g)), 0)]\<rparr>)\<rparr>))"
    unfolding init_filter_graph_volume_def Let_def pv c
    by (simp add: avfilter_graph_create_filter_def avfilter_link_def)
  then show ?thesis unfolding c_def .
qed

lemma volume_built_extend:
  assumes "volume_built av p g v" "nodes g' = nodes g @ xs" "volume_args xs = []"
  shows "volume_built av p g' v"
  using assms by (auto simp: volume_built_def volume_args_append nth_append)

lemma volume_stage_built:
  assumes "volume_args (nodes g) = []" "filter_graph s = Some g"
  shows "case init_filter_graph_volume av src g s of
           Return e s' \<Rightarrow>
             filter_volume s' = p_volume s \<and>
             (\<exists>g'. filter_graph s' = Some g' \<and> volume_built av (p_volume s) g' (volume_ctx s'))
         | Continue src' g' s' \<Rightarrow>
             filter_volume s' = p_volume s \<and> filter_graph s' = Some g' \<and>
             volume_built av (p_volume s) g' (volume_ctx s')"
  using assms
  by (simp add: init_filter_graph_volume_eq volume_built_def volume_args_append nth_append)

lemma asplit_stage_built:
  assumes "volume_built av p g (volume_ctx s)" "filter_graph s = Some g" "filter_volume s = p"
  shows "case init_filter_graph_asplit av src g s of
           Return e s' \<Rightarrow>
             filter_volume s' = p \<and>
             (\<exists>g'. filter_graph s' = Some g' \<and> volume_built av p g' (volume_ctx s'))
         | Continue src' g' s' \<Rightarrow>
             filter_volume s' = p \<and> filter_graph s' = Some g' \<and>
             volume_built av p g' (volume_ctx s')"
proof -
  have e: "volume_built av p (g\<lparr>nodes := nodes g @ [Asplit n]\<rparr>) (volume_ctx s)" for n
    using assms(1) by (rule volume_built_extend [where xs = "[Asplit n]"]) simp_all
  have l: "volume_built av p (g\<lparr>nodes := nodes g @ [Asplit n], links := ls\<rparr>) (volume_ctx s)" for n ls
    using assms(1) by (rule volume_built_extend [where xs = "[Asplit n]"]) simp_all
  show ?thesis
    using assms e l
    by (simp add: init_filter_graph_asplit_def avfilter_graph_create_filter_def
        avfilter_link_def Let_def)
qed

lemma classes_extend:
  "init_filter_graph_classes av sk src pad ms g = Done (e, ms', g') \<Longrightarrow>
   \<exists>xs. nodes g' = nodes g @ xs \<and> volume_args xs = []"
proof (induction ms arbitrary: pad g e ms' g')
  case Nil
  then show ?case by simp
next
  case (Cons m ms)
  from Cons.prems obtain ex others where st: "stack_head m = ex # others"
    by (cases "stack_head m") simp_all
  let ?f = "Aformat (audio_format (sk ex))"
  let ?g1 = "g\<lparr>nodes := nodes g @ [?f]\<rparr>"
  let ?g2 = "?g1\<lparr>links := links ?g1 @ [(src, pad, Some (length (nodes g)), 0)]\<rparr>"
  let ?g3 = "?g2\<lparr>nodes := nodes ?g2 @ [Abuffersink]\<rparr>"
  let ?g4 = "?g3\<lparr>links := links ?g3 @ [(Some (length (nodes g)), 0, Some (length (nodes ?g2)), 0)]\<rparr>"
  consider (a) "aformat_err av pad < 0" | (b) "0 \<le> aformat_err av pad" "aformat_link_err av pad < 0"
    | (c) "0 \<le> aformat_err av pad" "0 \<le> aformat_link_err av pad" "abuffersink_err av pad < 0"
    | (d) "0 \<le> aformat_err av pad" "0 \<le> aformat_link_err av pad" "0 \<le> abuffersink_err av pad"
          "abuffersink_link_err av pad < 0"
    | (e) "0 \<le> aformat_err av pad" "0 \<le> aformat_link_err av pad" "0 \<le> abuffersink_err av pad"
          "0 \<le> abuffersink_link_err av pad"
    by linarith
  then show ?case
  proof cases
    case a
    with Cons.prems st have "g' = g"
      by (simp add: avfilter_graph_create_filter_def)
    then show ?thesis by simp
  next
    case b
    with Cons.prems st have "g' = ?g1"
      by (simp add: avfilter_graph_create_filter_def avfilter_link_def)
    then show ?thesis by simp
  next
    case c
    with Cons.prems st have "g' = ?g2"
      by (simp add: avfilter_graph_create_filter_def avfilter_link_def)
    then show ?thesis by simp
  next
    case d
    with Cons.prems st have "g' = ?g3"
      by (simp add: avfilter_graph_create_filter_def avfilter_link_def)
    then show ?thesis by simp
  next
    case e
    with Cons.prems st obtain e2 ms2 where
      "init_filter_graph_classes av sk src (pad + 1) ms ?g4 = Done (e2, ms2, g')"
      by (auto simp: avfilter_graph_create_filter_def avfilter_link_def and_then_Done_iff)
    from Cons.IH [OF this] obtain xs where "nodes g' = nodes ?g4 @ xs" "volume_args xs = []"
      by blast
    then have "nodes g' = nodes g @ (?f # Abuffersink # xs)" "volume_args (?f # Abuffersink # xs) = []"
      by simp_all
    then show ?thesis by blast
  qed
qed

lemma asplit_stage_sink_map:
  "(init_filter_graph_asplit av src g s = Return e s' \<longrightarrow> sink_map s' = sink_map s \<and> e < 0) \<and>
   (init_filter_graph_asplit av src g s = Continue src' g' s' \<longrightarrow>
      sink_map s' = sink_map s \<and> sinks s' = sinks s)"
  by (auto simp: init_filter_graph_asplit_def avfilter_graph_create_filter_def
      avfilter_link_def Let_def split: if_splits)

lemma volume_stage_sink_map:
  "(init_filter_graph_volume av src g s = Return e s' \<longrightarrow>
      sink_map s' = sink_map s \<and> e < 0 \<and> \<not> deq (clamp01 (p_volume s)) (Fin 1)) \<and>
   (init_filter_graph_volume av src g s = Continue src' g' s' \<longrightarrow>
      sink_map s' = sink_map s \<and> sinks s' = sinks s \<and>
      (deq (clamp01 (p_volume s)) (Fin 1) \<or> 0 \<le> volume_err av))"
  by (auto simp: init_filter_graph_volume_eq split: if_splits)

lemma classes_total:
  "\<forall>m\<in>set ms. stack_head m \<noteq> [] \<Longrightarrow>
   \<exists>e ms' g'. init_filter_graph_classes av sk src pad ms g = Done (e, ms', g')"
proof (induction ms arbitrary: pad g)
  case Nil
  then show ?case by simp
next
  case (Cons m ms)
  then obtain ex others where st: "stack_head m = ex # others"
    by (cases "stack_head m") simp_all
  from Cons have ih: "\<exists>e ms' g'. init_filter_graph_classes av sk src pad' ms g2 = Done (e, ms', g')"
    for pad' g2
    by simp
  show ?case
    using st ih
    by (simp add: avfilter_graph_create_filter_def avfilter_link_def and_then_Done_iff
        split: prod.splits) blast
qed

lemma init_filter_graph_stages:
  assumes "graph_alloc av" "0 \<le> abuffer_err av"
  shows "init_filter_graph av fl s =
     (case init_filter_graph_volume av (Some 0) (abuffer_graph (files s fl)) (abuffer_state fl s) of
        Return e s3 \<Rightarrow> Done (e, s3)
      | Continue src3 g3 s3 \<Rightarrow>
          (case init_filter_graph_asplit av src3 g3 s3 of
             Return e s4 \<Rightarrow> Done (e, s4)
           | Continue src4 g4 s4 \<Rightarrow>
               and_then
                 (init_filter_graph_classes av (sinks s4) src4 0 (sink_map s4) g4)
                 (\<lambda>(err, ms, g5).
                    let s5 = s4\<lparr>sink_map := ms, filter_graph := Some g5\<rparr> in
                    if err < 0 then Done (err, s5)
                    else if config_err av < 0 then Done (config_err av, s5)
                    else Done (0, s5\<lparr>filter_graph := Some (g5\<lparr>configured := True\<rparr>),
                                     rebuild_filter_graph_flag := 0\<rparr>))))"
  using assms
  unfolding init_filter_graph_def abuffer_graph_def abuffer_state_def
  by (simp add: avfilter_graph_create_filter_def Let_def)

lemma abuffer_state_props:
  "p_volume (abuffer_state fl s) = p_volume s"
  "sink_map (abuffer_state fl s) = sink_map s"
  "filter_graph (abuffer_state fl s) = Some (abuffer_graph (files s fl))"
  "volume_args (nodes (abuffer_graph f)) = []"
  by (simp_all add: abuffer_state_def abuffer_graph_def)

lemma init_filter_graph_built:
  assumes av: "graph_alloc av" "0 \<le> abuffer_err av"
    and r: "init_filter_graph av fl s = Done (r, s')"
  shows "filter_volume s' = p_volume s \<and>
         (\<exists>g. filter_graph s' = Some g \<and> volume_built av (p_volume s) g (volume_ctx s'))"
proof -
  let ?g1 = "abuffer_graph (files s fl)"
  let ?s2 = "abuffer_state fl s"
  note vs = volume_stage_built [of ?g1 ?s2 av "Some 0", unfolded abuffer_state_props,
      OF refl refl]
  note st = r [unfolded init_filter_graph_stages [OF av]]
  show ?thesis
  proof (cases "init_filter_graph_volume av (Some 0) ?g1 ?s2")
    case (Return e s3)
    with vs st show ?thesis by simp
  next
    case (Continue src3 g3 s3)
    with vs have v3: "filter_volume s3 = p_volume s" "filter_graph s3 = Some g3"
      "volume_built av (p_volume s) g3 (volume_ctx s3)"
      by simp_all
    note as = asplit_stage_built [OF v3(3) v3(2) v3(1), of src3]
    show ?thesis
    proof (cases "init_filter_graph_asplit av src3 g3 s3")
      case (Return e s4)
      with as st Continue show ?thesis by simp
    next
      case c4: (Continue src4 g4 s4)
      with as have v4: "filter_volume s4 = p_volume s" "filter_graph s4 = Some g4"
        "volume_built av (p_volume s) g4 (volume_ctx s4)"
        by simp_all
      from st Continue c4 obtain err ms g5 where
        cl: "init_filter_graph_classes av (sinks s4) src4 0 (sink_map s4) g4 = Done (err, ms, g5)"
        and fin: "(let s5 = s4\<lparr>sink_map := ms, filter_graph := Some g5\<rparr> in
                    if err < 0 then Done (err, s5)
                    else if config_err av < 0 then Done (config_err av, s5)
                    else Done (0, s5\<lparr>filter_graph := Some (g5\<lparr>configured := True\<rparr>),
                                     rebuild_filter_graph_flag := 0\<rparr>)) = Done (r, s')"
        by (auto simp: and_then_Done_iff)
      from classes_extend [OF cl] obtain xs where xs: "nodes g5 = nodes g4 @ xs" "volume_args xs = []"
        by blast
      have b5: "volume_built av (p_volume s) g5 (volume_ctx s4)"
        using v4(3) xs by (rule volume_built_extend)
      have b6: "volume_built av (p_volume s) (g5\<lparr>configured := True\<rparr>) (volume_ctx s4)"
        using b5 by (rule volume_built_extend [where xs = "[]"]) simp_all
      from fin v4(1) b5 b6 show ?thesis
        by (auto simp: Let_def split: if_splits)
    qed
  qed
qed

lemma init_filter_graph_success:
  assumes "init_filter_graph av fl s = Done (0, s')"
  shows "graph_alloc av \<and> 0 \<le> abuffer_err av \<and>
         (deq (clamp01 (p_volume s)) (Fin 1) \<or> 0 \<le> volume_err av)"
proof -
  from assms have av: "graph_alloc av" "0 \<le> abuffer_err av"
    by (auto simp: init_filter_graph_def Let_def avfilter_graph_create_filter_def
        split: if_splits)
  note st = assms [unfolded init_filter_graph_stages [OF av]]
  note vm = volume_stage_sink_map [of av "Some 0" "abuffer_graph (files s fl)" "abuffer_state fl s",
      unfolded abuffer_state_props]
  have "deq (clamp01 (p_volume s)) (Fin 1) \<or> 0 \<le> volume_err av"
  proof (cases "init_filter_graph_volume av (Some 0) (abuffer_graph (files s fl)) (abuffer_state fl s)")
    case (Return e s3)
    with st vm [where e = e and s' = s3] show ?thesis by simp
  next
    case (Continue src3 g3 s3)
    with vm [where src' = src3 and g' = g3 and s' = s3] show ?thesis by simp
  qed
  with av show ?thesis by simp
qed

lemma init_filter_graph_total:
  assumes "\<forall>m\<in>set (sink_map s). stack_head m \<noteq> []"
  shows "\<exists>r s'. init_filter_graph av fl s = Done (r, s')"
proof (cases "graph_alloc av \<and> 0 \<le> abuffer_err av")
  case False
  then show ?thesis
    by (auto simp: init_filter_graph_def Let_def avfilter_graph_create_filter_def)
next
  case True
  then have av: "graph_alloc av" "0 \<le> abuffer_err av" by simp_all
  note vm = volume_stage_sink_map [of av "Some 0" "abuffer_graph (files s fl)" "abuffer_state fl s",
      unfolded abuffer_state_props]
  show ?thesis
  proof (cases "init_filter_graph_volume av (Some 0) (abuffer_graph (files s fl)) (abuffer_state fl s)")
    case (Return e s3)
    then show ?thesis by (simp add: init_filter_graph_stages [OF av])
  next
    case (Continue src3 g3 s3)
    with vm [where src' = src3 and g' = g3 and s' = s3] have m3: "sink_map s3 = sink_map s" by simp
    show ?thesis
    proof (cases "init_filter_graph_asplit av src3 g3 s3")
      case (Return e s4)
      with Continue show ?thesis by (simp add: init_filter_graph_stages [OF av])
    next
      case c4: (Continue src4 g4 s4)
      with asplit_stage_sink_map [where av = av and src = src3 and g = g3 and s = s3
          and src' = src4 and g' = g4 and s' = s4] m3
      have "sink_map s4 = sink_map s" by simp
      with assms classes_total [of "sink_map s4" av "sinks s4" src4 0 g4]
      obtain e ms g5 where
        "init_filter_graph_classes av (sinks s4) src4 0 (sink_map s4) g4 = Done (e, ms, g5)"
        by auto
      with Continue c4 show ?thesis
        by (simp add: init_filter_graph_stages [OF av] Let_def)
    qed
  qed
qed

lemma init_filter_graph_examples:
  "init_filter_graph av_ok 0 (playlist_created\<lparr>p_volume := Fin (1 / 2)\<rparr>) =
     Done (0, volume_built_example (Fin (1 / 2)) ''volume=0.500000'')"
  "init_filter_graph av_ok 0 (playlist_created\<lparr>p_volume := Fin (- 3)\<rparr>) =
     Done (0, volume_built_example (Fin (- 3)) ''volume=0.000000'')"
  "init_filter_graph av_ok 0 (playlist_created\<lparr>p_volume := Fin 2\<rparr>) =
     Done (0, built_example\<lparr>p_volume := Fin 2, filter_volume := Fin 2\<rparr>)"
  "init_filter_graph av_ok 0 (playlist_created\<lparr>volume := NaN, p_volume := NaN\<rparr>) =
     Done (0, volume_built_example NaN ''volume=nan''\<lparr>volume := NaN\<rparr>)"
  by (simp_all add: init_filter_graph_def init_filter_graph_volume_def init_filter_graph_asplit_def
      avfilter_graph_create_filter_def avfilter_link_def dgreater_def Let_def
      av_ok_def snprintf_volume_example_def playlist_created_def built_example_def
      volume_built_example_def file_example_def)

text \<open>
  The volume filter of a build, for every state and every answer of the libraries. A
  build that gets past the creation of the source filter records the unclamped volume in
  \<^verbatim>\<open>filter_volume\<close>; the graph holds no volume filter and \<^verbatim>\<open>volume_ctx\<close> is NULL
  when the clamped volume equals 1.0; otherwise the code creates one volume filter with
  the text of the clamped volume and \<^verbatim>\<open>volume_ctx\<close> points to it (unless libavfilter
  refuses to create it, and then the build fails). A build that returns 0 got that far.
  The clamped value lies between 0.0 and 1.0 for every volume that is not a NaN. The
  build returns whenever no class of the sink map is empty.
\<close>

lemma volume_clamped_at_build:
  "(graph_alloc av \<and> 0 \<le> abuffer_err av \<and> init_filter_graph av fl s = Done (r, s') \<longrightarrow>
      filter_volume s' = p_volume s \<and>
      (\<exists>g. filter_graph s' = Some g \<and>
           volume_args (nodes g) =
             (if deq (clamp01 (p_volume s)) (Fin 1) \<or> volume_err av < 0 then []
              else [snprintf_volume av (clamp01 (p_volume s))]) \<and>
           (deq (clamp01 (p_volume s)) (Fin 1) \<longrightarrow> volume_ctx s' = None) \<and>
           (\<not> deq (clamp01 (p_volume s)) (Fin 1) \<and> 0 \<le> volume_err av \<longrightarrow>
              (\<exists>i. volume_ctx s' = Some i \<and> i < length (nodes g) \<and>
                   nodes g ! i = Volume (snprintf_volume av (clamp01 (p_volume s))))))) \<and>
   (init_filter_graph av fl s = Done (0, s') \<longrightarrow>
      graph_alloc av \<and> 0 \<le> abuffer_err av \<and>
      (deq (clamp01 (p_volume s)) (Fin 1) \<or> 0 \<le> volume_err av)) \<and>
   (p_volume s \<noteq> NaN \<longrightarrow> in_unit_interval (clamp01 (p_volume s))) \<and>
   ((\<forall>m\<in>set (sink_map s). stack_head m \<noteq> []) \<longrightarrow>
      (\<exists>r s'. init_filter_graph av fl s = Done (r, s')))"
proof (intro conjI impI)
  assume h: "graph_alloc av \<and> 0 \<le> abuffer_err av \<and> init_filter_graph av fl s = Done (r, s')"
  then have b: "filter_volume s' = p_volume s \<and>
         (\<exists>g. filter_graph s' = Some g \<and> volume_built av (p_volume s) g (volume_ctx s'))"
    using init_filter_graph_built [of av fl s r s'] by blast
  then show "filter_volume s' = p_volume s" by simp
  from b show "\<exists>g. filter_graph s' = Some g \<and>
           volume_args (nodes g) =
             (if deq (clamp01 (p_volume s)) (Fin 1) \<or> volume_err av < 0 then []
              else [snprintf_volume av (clamp01 (p_volume s))]) \<and>
           (deq (clamp01 (p_volume s)) (Fin 1) \<longrightarrow> volume_ctx s' = None) \<and>
           (\<not> deq (clamp01 (p_volume s)) (Fin 1) \<and> 0 \<le> volume_err av \<longrightarrow>
              (\<exists>i. volume_ctx s' = Some i \<and> i < length (nodes g) \<and>
                   nodes g ! i = Volume (snprintf_volume av (clamp01 (p_volume s)))))"
    unfolding volume_built_def by blast
next
  assume h: "init_filter_graph av fl s = Done (0, s')"
  from init_filter_graph_success [OF h]
  show "graph_alloc av" "0 \<le> abuffer_err av"
    "deq (clamp01 (p_volume s)) (Fin 1) \<or> 0 \<le> volume_err av"
    by simp_all
next
  assume "p_volume s \<noteq> NaN"
  then show "in_unit_interval (clamp01 (p_volume s))" by (rule clamp01_in_unit_interval)
next
  assume "\<forall>m\<in>set (sink_map s). stack_head m \<noteq> []"
  then show "\<exists>r s'. init_filter_graph av fl s = Done (r, s')"
    by (rule init_filter_graph_total)
qed

text \<open>
  Claim C7. After \<^verbatim>\<open>groove_playlist_set_volume(playlist, NAN)\<close> both comparisons of
  the clamp are false and the comparison with 1.0 as well: the build creates the volume
  filter with the text of the NaN, which is not a value between 0.0 and 1.0. The
  comparison of \<^verbatim>\<open>maybe_init_filter_graph\<close> between the volume and the recorded
  \<^verbatim>\<open>filter_volume\<close> is then true at every call, so every call builds the graph again.
  A volume of -3.0 is clamped to 0.0 and built once.
\<close>

theorem nan_volume_not_clamped:
  "groove_playlist_set_volume (\<lambda>a b. a) NaN playlist_created =
     Done (playlist_created\<lparr>volume := NaN, p_volume := NaN\<rparr>) \<and>
   init_filter_graph av_ok 0 (playlist_created\<lparr>volume := NaN, p_volume := NaN\<rparr>) =
     Done (0, volume_built_example NaN (snprintf_volume av_ok NaN)\<lparr>volume := NaN\<rparr>) \<and>
   filter_graph (volume_built_example NaN (snprintf_volume av_ok NaN)\<lparr>volume := NaN\<rparr>) =
     Some \<lparr>nodes = [Abuffer 1 48000 48000 3 3, Volume (snprintf_volume av_ok NaN)],
           links = [(Some 0, 0, Some 1, 0)], configured = True\<rparr> \<and>
   \<not> in_unit_interval NaN \<and>
   maybe_init_filter_graph av_ok 0 (volume_built_example NaN (snprintf_volume av_ok NaN)\<lparr>volume := NaN\<rparr>) =
     init_filter_graph av_ok 0 (volume_built_example NaN (snprintf_volume av_ok NaN)\<lparr>volume := NaN\<rparr>) \<and>
   init_filter_graph av_ok 0 (playlist_created\<lparr>volume := Fin (- 3), p_volume := Fin (- 3)\<rparr>) =
     Done (0, volume_built_example (Fin (- 3)) (snprintf_volume av_ok (Fin 0))\<lparr>volume := Fin (- 3)\<rparr>) \<and>
   maybe_init_filter_graph av_ok 0
       (volume_built_example (Fin (- 3)) (snprintf_volume av_ok (Fin 0))\<lparr>volume := Fin (- 3)\<rparr>) =
     Done (0, volume_built_example (Fin (- 3)) (snprintf_volume av_ok (Fin 0))\<lparr>volume := Fin (- 3)\<rparr>)"
proof -
  have sv: "groove_playlist_set_volume (\<lambda>a b. a) NaN playlist_created =
     Done (playlist_created\<lparr>volume := NaN, p_volume := NaN\<rparr>)"
    by (simp add: groove_playlist_set_volume_def playlist_created_def)
  have tx: "snprintf_volume av_ok NaN = ''volume=nan''"
    "snprintf_volume av_ok (Fin 0) = ''volume=0.000000''"
    by (simp_all add: av_ok_def snprintf_volume_example_def)
  have b1: "init_filter_graph av_ok 0 (playlist_created\<lparr>volume := NaN, p_volume := NaN\<rparr>) =
     Done (0, volume_built_example NaN (snprintf_volume av_ok NaN)\<lparr>volume := NaN\<rparr>)"
    unfolding tx by (rule init_filter_graph_examples(4))
  have g: "filter_graph (volume_built_example NaN (snprintf_volume av_ok NaN)\<lparr>volume := NaN\<rparr>) =
     Some \<lparr>nodes = [Abuffer 1 48000 48000 3 3, Volume (snprintf_volume av_ok NaN)],
           links = [(Some 0, 0, Some 1, 0)], configured = True\<rparr>"
    by (simp add: volume_built_example_def)
  have n: "\<not> in_unit_interval NaN"
    by (simp add: in_unit_interval_def)
  have m1: "maybe_init_filter_graph av_ok 0
       (volume_built_example NaN (snprintf_volume av_ok NaN)\<lparr>volume := NaN\<rparr>) =
     init_filter_graph av_ok 0 (volume_built_example NaN (snprintf_volume av_ok NaN)\<lparr>volume := NaN\<rparr>)"
    by (simp add: maybe_init_filter_graph_def volume_built_example_def Let_def)
  have b2: "init_filter_graph av_ok 0 (playlist_created\<lparr>volume := Fin (- 3), p_volume := Fin (- 3)\<rparr>) =
     Done (0, volume_built_example (Fin (- 3)) (snprintf_volume av_ok (Fin 0))\<lparr>volume := Fin (- 3)\<rparr>)"
    unfolding tx
    by (simp add: init_filter_graph_def init_filter_graph_volume_def init_filter_graph_asplit_def
      avfilter_graph_create_filter_def avfilter_link_def dgreater_def Let_def
      av_ok_def snprintf_volume_example_def playlist_created_def built_example_def
      volume_built_example_def file_example_def)
  have m2: "maybe_init_filter_graph av_ok 0
       (volume_built_example (Fin (- 3)) (snprintf_volume av_ok (Fin 0))\<lparr>volume := Fin (- 3)\<rparr>) =
     Done (0, volume_built_example (Fin (- 3)) (snprintf_volume av_ok (Fin 0))\<lparr>volume := Fin (- 3)\<rparr>)"
    by (simp add: maybe_init_filter_graph_def volume_built_example_def built_example_def
        playlist_created_def file_example_def Let_def)
  from sv b1 g n m1 b2 m2 show ?thesis by blast
qed

theorem nan_volume_not_clamped_witness:
  "maybe_init_filter_graph av_ok 0 (volume_built_example NaN (snprintf_volume av_ok NaN)\<lparr>volume := NaN\<rparr>) =
     Done (0, volume_built_example NaN (snprintf_volume av_ok NaN)\<lparr>volume := NaN\<rparr>)"
proof -
  have "init_filter_graph av_ok 0 (volume_built_example NaN (snprintf_volume av_ok NaN)\<lparr>volume := NaN\<rparr>) =
     Done (0, volume_built_example NaN (snprintf_volume av_ok NaN)\<lparr>volume := NaN\<rparr>)"
    by (simp add: init_filter_graph_def init_filter_graph_volume_def init_filter_graph_asplit_def
      avfilter_graph_create_filter_def avfilter_link_def dgreater_def Let_def
      av_ok_def snprintf_volume_example_def playlist_created_def built_example_def
      volume_built_example_def file_example_def)
  with nan_volume_not_clamped show ?thesis by simp
qed

subsection \<open>The end of the playlist among other threads\<close>



































































end
